theory Spec2Isabelle
  imports Main
begin

section \<open>The prompt (contextual suggestion) sub-system of the Lexxy editor\<close>

text \<open>
  A shallow embedding of \<^verbatim>\<open>src/elements/prompt.js\<close> (the \<^verbatim>\<open><lexxy-prompt>\<close> element),
  of the prompt sources (\<^verbatim>\<open>BaseSource\<close>, \<^verbatim>\<open>LocalFilterSource\<close>, \<^verbatim>\<open>InlinePromptSource\<close>,
  \<^verbatim>\<open>DeferredPromptSource\<close>, \<^verbatim>\<open>RemoteFilterSource\<close>) and of the constructor of
  \<^verbatim>\<open>CustomActionTextAttachmentNode\<close>.

  JavaScript strings are modelled as \<^typ>\<open>string\<close>, one \<^typ>\<open>char\<close> per code unit.
  DOM elements created at run time are identified by a reference (a natural number
  drawn from a counter), which is what a \<^verbatim>\<open>WeakMap\<close> keys on.
\<close>

subsection \<open>String primitives of the host language\<close>

text \<open>\<^verbatim>\<open>s.slice(0, n)\<close> is \<^term>\<open>take n s\<close> and \<^verbatim>\<open>s.slice(n)\<close> is \<^term>\<open>drop n s\<close>.\<close>

text \<open>\<^verbatim>\<open>s.startsWith(t)\<close>.\<close>

definition startsWith :: "string \<Rightarrow> string \<Rightarrow> bool" where
  "startsWith s t = (take (length t) s = t)"

text \<open>\<^verbatim>\<open>s.includes(t)\<close>: \<^verbatim>\<open>t\<close> occurs in \<^verbatim>\<open>s\<close> as a contiguous run.\<close>

fun js_includes :: "string \<Rightarrow> string \<Rightarrow> bool" where
  "js_includes [] t = (t = [])"
| "js_includes (c # s) t = (startsWith (c # s) t \<or> js_includes s t)"

text \<open>
  \<^verbatim>\<open>s.lastIndexOf(t)\<close>: the greatest index at which \<^verbatim>\<open>t\<close> starts in \<^verbatim>\<open>s\<close>;
  \<^term>\<open>None\<close> stands for the result \<^verbatim>\<open>-1\<close>.
\<close>

fun lastIndexOf :: "string \<Rightarrow> string \<Rightarrow> nat option" where
  "lastIndexOf [] t = (if t = [] then Some 0 else None)"
| "lastIndexOf (c # s) t =
     (case lastIndexOf s t of
        Some i \<Rightarrow> Some (Suc i)
      | None \<Rightarrow> if startsWith (c # s) t then Some 0 else None)"

text \<open>\<^verbatim>\<open>s[i]\<close>: the one-character string at index \<^verbatim>\<open>i\<close>, or \<^verbatim>\<open>undefined\<close> out of range.\<close>

definition charAt :: "string \<Rightarrow> nat \<Rightarrow> string option" where
  "charAt s i = (if i < length s then Some [s ! i] else None)"

subsection \<open>Prompt items and menu entries\<close>

text \<open>
  A \<^verbatim>\<open><lexxy-prompt-item>\<close> element: its \<^verbatim>\<open>search\<close> attribute, its \<^verbatim>\<open>sgid\<close>
  attribute (\<^verbatim>\<open>getAttribute\<close> gives \<^verbatim>\<open>null\<close> when it is absent) and the markup of its
  two templates. The markup contract of the prompt requires the \<^verbatim>\<open>search\<close> attribute
  and both templates, so the type has them as plain strings.
\<close>

record prompt_item =
  search :: string
  sgid :: "string option"
  menu_template :: string
  editor_template :: string

text \<open>
  A \<^verbatim>\<open><li class="lexxy-prompt-menu__item">\<close> built for the menu: its identity, its
  content and whether it carries the \<^verbatim>\<open>aria-selected\<close> attribute.
\<close>

record list_item =
  li_ref :: nat
  li_html :: string
  aria_selected :: bool

text \<open>\<^verbatim>\<open>BaseSource.buildListItemElementFor\<close>: a fresh element holding a copy of the menu template.\<close>

definition buildListItemElementFor :: "nat \<Rightarrow> prompt_item \<Rightarrow> list_item" where
  "buildListItemElementFor r p = \<lparr>li_ref = r, li_html = menu_template p, aria_selected = False\<rparr>"

subsection \<open>Local filtering\<close>

text \<open>
  Modelled from the spec: the helper \<^verbatim>\<open>filterMatches\<close> of \<^verbatim>\<open>helpers/string_helper\<close> is
  not among the sources, and neither is what it uses to ignore case. Bringing a
  character to lower case: the letters \<^verbatim>\<open>A\<close> to \<^verbatim>\<open>Z\<close> go to \<^verbatim>\<open>a\<close> to \<^verbatim>\<open>z\<close>.
\<close>

definition lower_char :: "char \<Rightarrow> char" where
  "lower_char c =
     (let n = (of_char c :: nat) in if 65 \<le> n \<and> n \<le> 90 then char_of (n + 32) else c)"

text \<open>Modelled from the spec: bringing a string to lower case, for \<^verbatim>\<open>filterMatches\<close>.\<close>

definition toLowerCase :: "string \<Rightarrow> string" where
  "toLowerCase s = map lower_char s"

text \<open>
  Modelled from the spec: \<^verbatim>\<open>filterMatches\<close> of \<^verbatim>\<open>helpers/string_helper\<close> is not among the
  sources. The specification and the documentation of \<^verbatim>\<open>LocalFilterSource\<close> describe it as
  a case-insensitive substring match: the filter is found anywhere in the searchable text
  once both are brought to the same case.
\<close>

definition filterMatches :: "string \<Rightarrow> string \<Rightarrow> bool" where
  "filterMatches text potentialMatch = js_includes (toLowerCase text) (toLowerCase potentialMatch)"

text \<open>
  The state of the \<^verbatim>\<open>forEach\<close> loop of \<^verbatim>\<open>#buildListItemsFromPromptItems\<close>: the array
  \<^verbatim>\<open>listItems\<close>, the \<^verbatim>\<open>WeakMap\<close> from list items to prompt items, and the next unused
  element reference.
\<close>

record build_state =
  listItems :: "list_item list"
  byListItem :: "nat \<rightharpoonup> prompt_item"
  fresh :: nat

text \<open>One iteration of the loop; \<^verbatim>\<open>!filter\<close> holds exactly of the empty string.\<close>

definition build_step :: "string \<Rightarrow> prompt_item \<Rightarrow> build_state \<Rightarrow> build_state" where
  "build_step flt promptItem b =
     (if flt = [] \<or> filterMatches (search promptItem) flt
      then let listItem = buildListItemElementFor (fresh b) promptItem
           in \<lparr>listItems = listItems b @ [listItem],
               byListItem = (byListItem b)(li_ref listItem \<mapsto> promptItem),
               fresh = Suc (fresh b)\<rparr>
      else b)"

fun build_loop :: "string \<Rightarrow> prompt_item list \<Rightarrow> build_state \<Rightarrow> build_state" where
  "build_loop flt [] b = b"
| "build_loop flt (p # ps) b = build_loop flt ps (build_step flt p b)"

text \<open>
  \<^verbatim>\<open>LocalFilterSource.#buildListItemsFromPromptItems\<close>: starts from an empty array and a new
  \<^verbatim>\<open>WeakMap\<close>; the first argument is the next unused element reference.
\<close>

definition buildListItemsFromPromptItems :: "nat \<Rightarrow> prompt_item list \<Rightarrow> string \<Rightarrow> build_state" where
  "buildListItemsFromPromptItems n promptItems flt =
     build_loop flt promptItems \<lparr>listItems = [], byListItem = Map.empty, fresh = n\<rparr>"

text \<open>
  A source that filters locally: the items \<^verbatim>\<open>fetchPromptItems\<close> resolves to without
  suspending (the inline items of an \<^verbatim>\<open>InlinePromptSource\<close>, the cached
  \<^verbatim>\<open>promptItems\<close> of a loaded \<^verbatim>\<open>DeferredPromptSource\<close>) and the field
  \<^verbatim>\<open>promptItemByListItem\<close>, which is \<^verbatim>\<open>undefined\<close> until the first build.
\<close>

record local_source =
  fetchedPromptItems :: "prompt_item list"
  promptItemByListItem :: "(nat \<rightharpoonup> prompt_item) option"

text \<open>\<^verbatim>\<open>new InlinePromptSource(items)\<close>.\<close>

definition InlinePromptSource :: "prompt_item list \<Rightarrow> local_source" where
  "InlinePromptSource inlinePromptItems =
     \<lparr>fetchedPromptItems = inlinePromptItems, promptItemByListItem = None\<rparr>"

text \<open>
  \<^verbatim>\<open>LocalFilterSource.buildListItems(filter)\<close>: the list items, the source with its new
  association table, and the next unused element reference.
\<close>

definition buildListItems :: "local_source \<Rightarrow> nat \<Rightarrow> string \<Rightarrow> list_item list \<times> local_source \<times> nat" where
  "buildListItems src n flt =
     (let b = buildListItemsFromPromptItems n (fetchedPromptItems src) flt
      in (listItems b, src\<lparr>promptItemByListItem := Some (byListItem b)\<rparr>, fresh b))"

text \<open>
  The errors of the host language that the modelled code can raise.
\<close>

datatype js_error = TypeError

text \<open>
  \<^verbatim>\<open>promptItemFor(listItem)\<close> of \<^verbatim>\<open>LocalFilterSource\<close> and of \<^verbatim>\<open>RemoteFilterSource\<close>:
  \<^verbatim>\<open>this.promptItemByListItem.get(listItem)\<close>. Reading \<^verbatim>\<open>get\<close> of an undefined table
  raises; \<^verbatim>\<open>get(undefined)\<close> on a table is \<^verbatim>\<open>undefined\<close>.
\<close>

definition promptItemFor :: "(nat \<rightharpoonup> prompt_item) option \<Rightarrow> list_item option \<Rightarrow> js_error + prompt_item option" where
  "promptItemFor table listItem =
     (case table of
        None \<Rightarrow> Inl TypeError
      | Some m \<Rightarrow> (case listItem of None \<Rightarrow> Inr None | Some li \<Rightarrow> Inr (m (li_ref li))))"

subsection \<open>The host editor\<close>

text \<open>
  \<^verbatim>\<open>new CustomActionTextAttachmentNode({ sgid, contentType, innerHtml })\<close>: the fields the
  constructor stores. \<^verbatim>\<open>contentType || "application/vnd.actiontext.unknown"\<close> replaces an
  undefined or empty content type.
\<close>

record custom_attachment =
  node_sgid :: "string option"
  node_contentType :: string
  node_innerHtml :: string

definition CustomActionTextAttachmentNode :: "string option \<Rightarrow> string option \<Rightarrow> string \<Rightarrow> custom_attachment" where
  "CustomActionTextAttachmentNode sg ct html =
     \<lparr>node_sgid = sg,
      node_contentType = (case ct of None \<Rightarrow> ''application/vnd.actiontext.unknown''
                          | Some t \<Rightarrow> if t = [] then ''application/vnd.actiontext.unknown'' else t),
      node_innerHtml = html\<rparr>"

text \<open>
  The nodes of the document that matter to the prompt: text nodes, custom attachment
  nodes, the nodes \<^verbatim>\<open>$generateNodesFromDOM\<close> makes of parsed markup (kept as the markup they
  come from), and any other node.
\<close>

datatype lexical_node =
    TextNode string
  | AttachmentNode custom_attachment
  | GeneratedNodes string
  | OtherNode

fun isTextNode :: "lexical_node \<Rightarrow> bool" where
  "isTextNode (TextNode t) = True"
| "isTextNode n = False"

fun getTextContent :: "lexical_node \<Rightarrow> string" where
  "getTextContent (TextNode t) = t"
| "getTextContent n = []"

text \<open>
  The \<^verbatim>\<open><lexxy-editor>\<close> element as the prompt sees it: the inline nodes around the
  cursor, the selection (the position of the selected node among them and the offset in
  it, or no selection) and whether the editor has the focus.
\<close>

record lexxy_editor =
  nodes :: "lexical_node list"
  selection :: "(nat \<times> nat) option"
  focused :: bool

text \<open>
  The selection and contents objects of the editor element (\<^verbatim>\<open>selectedNodeWithOffset\<close>,
  \<^verbatim>\<open>containsTextBackUntil\<close>, \<^verbatim>\<open>textBackUntil\<close>, \<^verbatim>\<open>replaceTextBackUntil\<close>) are not among
  the sources. The specification gives them as collaborator interfaces of the host
  editor; the definitions below follow it.
\<close>

text \<open>
  Modelled from the spec: \<^verbatim>\<open>selection.selectedNodeWithOffset()\<close> is not among the sources.
  It reads the current cursor position as a (node, offset) pair; there is no node when
  nothing is selected.
\<close>

definition selectedNodeWithOffset :: "lexxy_editor \<Rightarrow> lexical_node option \<times> nat" where
  "selectedNodeWithOffset ed =
     (case selection ed of
        None \<Rightarrow> (None, 0)
      | Some (i, off) \<Rightarrow> if i < length (nodes ed) then (Some (nodes ed ! i), off) else (None, 0))"

text \<open>
  Modelled from the spec: the raw text content of the node containing the cursor, up to
  the cursor (the contents object that reads it is not among the sources); nothing when
  the cursor is not in a text node.
\<close>

definition textBeforeCursor :: "lexxy_editor \<Rightarrow> string option" where
  "textBeforeCursor ed =
     (case selectedNodeWithOffset ed of
        (Some (TextNode t), off) \<Rightarrow> Some (take off t)
      | _ \<Rightarrow> None)"

text \<open>
  Modelled from the spec: \<^verbatim>\<open>contents.containsTextBackUntil(string)\<close> is not among the
  sources. The session goes on while the trigger text can be reached from the cursor:
  the string occurs in the text before the cursor, in the node that holds the cursor.
\<close>

definition containsTextBackUntil :: "lexxy_editor \<Rightarrow> string \<Rightarrow> bool" where
  "containsTextBackUntil ed s =
     (case textBeforeCursor ed of None \<Rightarrow> False | Some t \<Rightarrow> js_includes t s)"

text \<open>
  Modelled from the spec: \<^verbatim>\<open>contents.textBackUntil(string)\<close> is not among the sources. The
  filter string is the text between the trigger character and the cursor; the trigger
  is looked up from the cursor backwards, as the cursor listener of the prompt itself
  does with \<^verbatim>\<open>lastIndexOf\<close>.
\<close>

definition textBackUntil :: "lexxy_editor \<Rightarrow> string \<Rightarrow> string" where
  "textBackUntil ed s =
     (case textBeforeCursor ed of
        None \<Rightarrow> []
      | Some t \<Rightarrow> (case lastIndexOf t s of None \<Rightarrow> [] | Some i \<Rightarrow> drop (i + length s) t))"

text \<open>
  Modelled from the spec: \<^verbatim>\<open>contents.replaceTextBackUntil(string, nodes)\<close> is not among
  the sources. It replaces a text span with nodes: the last occurrence of the string
  before the cursor, up to the cursor, in the text node that holds the cursor. The text
  before the span and the text after the cursor stay as text nodes around the new
  nodes, and the cursor goes behind them.
\<close>

definition replaceTextBackUntil :: "lexxy_editor \<Rightarrow> string \<Rightarrow> lexical_node list \<Rightarrow> lexxy_editor" where
  "replaceTextBackUntil ed stringToReplace replacementNodes =
     (case selection ed of
        None \<Rightarrow> ed
      | Some (i, off) \<Rightarrow>
          if i < length (nodes ed) then
            (case nodes ed ! i of
               TextNode t \<Rightarrow>
                 (case lastIndexOf (take off t) stringToReplace of
                    None \<Rightarrow> ed
                  | Some k \<Rightarrow>
                      ed\<lparr>nodes := take i (nodes ed) @ [TextNode (take k t)] @ replacementNodes
                                    @ [TextNode (drop off t)] @ drop (Suc i) (nodes ed),
                         selection := Some (Suc (i + length replacementNodes), 0)\<rparr>)
             | _ \<Rightarrow> ed)
          else ed)"

subsection \<open>The prompt element\<close>

text \<open>
  A child of the popover: a list item of class \<^verbatim>\<open>lexxy-prompt-menu__item\<close>, or the
  entry of class \<^verbatim>\<open>lexxy-prompt-menu__item--empty\<close> that \<^verbatim>\<open>#showEmptyResults\<close> makes, with
  its content.
\<close>

datatype menu_entry = Item list_item | EmptyEntry string

datatype key_command = KEY_ENTER_COMMAND | KEY_TAB_COMMAND | KEY_SPACE_COMMAND
  | KEY_ARROW_UP_COMMAND | KEY_ARROW_DOWN_COMMAND

text \<open>
  The state of a \<^verbatim>\<open><lexxy-prompt>\<close> element: its attributes, the field
  \<^verbatim>\<open>initialPrompt\<close>, the popover (its children, its classes
  \<^verbatim>\<open>lexxy-prompt-menu--visible\<close> and \<^verbatim>\<open>lexxy-prompt-menu--empty\<close>), the
  \<^verbatim>\<open>aria-activedescendant\<close> attribute it sets on the editor content, and which of its
  listeners are registered (a listener registered more than once counts as registered).
  \<^verbatim>\<open>pendingRearm\<close> counts the calls of \<^verbatim>\<open>#hidePopover\<close> that wait for the next frame to
  register the trigger listener again.

  The popover is built by the first \<^verbatim>\<open>#showPopover\<close>, before any session listener is
  registered, so the state has it from the start (empty and hidden). Positioning
  (\<^verbatim>\<open>#positionPopover\<close>) only writes style coordinates and is left out.
\<close>

record prompt_element =
  trigger :: string
  name :: "string option"
  insertEditableText :: bool
  supportsSpaceInSearches :: bool
  emptyResults :: "string option"
  initialPrompt :: bool
  entries :: "menu_entry list"
  visible :: bool
  emptyClass :: bool
  ariaActivedescendant :: "nat option"
  keyListeners :: "key_command list"
  keydownListener :: bool
  changeListener :: bool
  cursorPositionListener :: bool
  triggerListener :: bool
  pendingRearm :: nat

text \<open>
  The prompt with its editor, its source (of type \<^typ>\<open>'s\<close>: one record type per kind of
  source) and the counter that new elements draw their reference from.
\<close>

record 's prompt_system =
  prompt :: prompt_element
  editor :: lexxy_editor
  source :: 's
  nextRef :: nat

definition NOTHING_FOUND_DEFAULT_MESSAGE :: string where
  "NOTHING_FOUND_DEFAULT_MESSAGE = ''Nothing found''"

text \<open>\<^verbatim>\<open>get open\<close>: the popover has the class \<^verbatim>\<open>lexxy-prompt-menu--visible\<close>.\<close>

definition is_open :: "'s prompt_system \<Rightarrow> bool" where
  "is_open sys = visible (prompt sys)"

text \<open>\<^verbatim>\<open>get #doesSpaceSelect\<close>.\<close>

definition doesSpaceSelect :: "prompt_element \<Rightarrow> bool" where
  "doesSpaceSelect p = (\<not> supportsSpaceInSearches p)"

text \<open>\<^verbatim>\<open>get #emptyResultsMessage\<close>: \<^verbatim>\<open>getAttribute("empty-results") || DEFAULT\<close>.\<close>

definition emptyResultsMessage :: "prompt_element \<Rightarrow> string" where
  "emptyResultsMessage p =
     (case emptyResults p of
        None \<Rightarrow> NOTHING_FOUND_DEFAULT_MESSAGE
      | Some m \<Rightarrow> if m = [] then NOTHING_FOUND_DEFAULT_MESSAGE else m)"

text \<open>\<^verbatim>\<open>get #listItemElements\<close>: \<^verbatim>\<open>querySelectorAll(".lexxy-prompt-menu__item")\<close>.\<close>

fun listItemElements :: "menu_entry list \<Rightarrow> list_item list" where
  "listItemElements [] = []"
| "listItemElements (Item li # es) = li # listItemElements es"
| "listItemElements (EmptyEntry m # es) = listItemElements es"

text \<open>\<^verbatim>\<open>Array.prototype.findIndex\<close>, with \<^verbatim>\<open>-1\<close> when nothing is found.\<close>

fun findIndex :: "('a \<Rightarrow> bool) \<Rightarrow> 'a list \<Rightarrow> int" where
  "findIndex P [] = -1"
| "findIndex P (x # xs) = (if P x then 0 else (let i = findIndex P xs in if i = -1 then -1 else i + 1))"

text \<open>\<^verbatim>\<open>get #selectedIndex\<close> and \<^verbatim>\<open>get #selectedListItem\<close> (an index outside the array reads \<^verbatim>\<open>undefined\<close>).\<close>

definition selectedIndex :: "prompt_element \<Rightarrow> int" where
  "selectedIndex p = findIndex aria_selected (listItemElements (entries p))"

definition selectedListItem :: "prompt_element \<Rightarrow> list_item option" where
  "selectedListItem p =
     (let i = selectedIndex p; items = listItemElements (entries p)
      in if 0 \<le> i \<and> i < int (length items) then Some (items ! nat i) else None)"

text \<open>\<^verbatim>\<open>#clearSelection\<close>.\<close>

fun unselect :: "menu_entry \<Rightarrow> menu_entry" where
  "unselect (Item li) = Item (li\<lparr>aria_selected := False\<rparr>)"
| "unselect (EmptyEntry m) = EmptyEntry m"

definition clearSelection :: "prompt_element \<Rightarrow> prompt_element" where
  "clearSelection p = p\<lparr>entries := map unselect (entries p), ariaActivedescendant := None\<rparr>"

text \<open>
  \<^verbatim>\<open>#selectOption(listItem)\<close>: the item gets \<^verbatim>\<open>aria-selected\<close>, the focus goes to it and
  back to the editor, and the editor content points at it.
\<close>

fun mark :: "nat \<Rightarrow> menu_entry \<Rightarrow> menu_entry" where
  "mark r (Item li) = Item (if li_ref li = r then li\<lparr>aria_selected := True\<rparr> else li)"
| "mark r (EmptyEntry m) = EmptyEntry m"

definition selectOption :: "list_item \<Rightarrow> 's prompt_system \<Rightarrow> 's prompt_system" where
  "selectOption listItem sys =
     (let p = clearSelection (prompt sys)
      in sys\<lparr>prompt := p\<lparr>entries := map (mark (li_ref listItem)) (entries p),
                            ariaActivedescendant := Some (li_ref listItem)\<rparr>,
              editor := (editor sys)\<lparr>focused := True\<rparr>\<rparr>)"

text \<open>\<^verbatim>\<open>#selectFirstOption\<close>.\<close>

definition selectFirstOption :: "'s prompt_system \<Rightarrow> 's prompt_system" where
  "selectFirstOption sys =
     (case listItemElements (entries (prompt sys)) of
        [] \<Rightarrow> sys
      | firstOption # _ \<Rightarrow> selectOption firstOption sys)"

text \<open>
  \<^verbatim>\<open>#moveSelectionDown\<close> and \<^verbatim>\<open>#moveSelectionUp\<close>: the next index is at least 0 and
  the previous one is below the number of list items, since the selected index is at
  least -1 and below that number.
\<close>

definition moveSelectionDown :: "'s prompt_system \<Rightarrow> 's prompt_system" where
  "moveSelectionDown sys =
     (let nextIndex = selectedIndex (prompt sys) + 1;
          items = listItemElements (entries (prompt sys))
      in if nextIndex < int (length items) then selectOption (items ! nat nextIndex) sys else sys)"

definition moveSelectionUp :: "'s prompt_system \<Rightarrow> 's prompt_system" where
  "moveSelectionUp sys =
     (let previousIndex = selectedIndex (prompt sys) - 1;
          items = listItemElements (entries (prompt sys))
      in if previousIndex \<ge> 0 then selectOption (items ! nat previousIndex) sys else sys)"

text \<open>\<^verbatim>\<open>#showResults\<close> and \<^verbatim>\<open>#showEmptyResults\<close>.\<close>

definition showResults :: "list_item list \<Rightarrow> prompt_element \<Rightarrow> prompt_element" where
  "showResults filteredListItems p =
     p\<lparr>emptyClass := False, entries := entries p @ map Item filteredListItems\<rparr>"

definition showEmptyResults :: "prompt_element \<Rightarrow> prompt_element" where
  "showEmptyResults p =
     p\<lparr>emptyClass := True, entries := entries p @ [EmptyEntry (emptyResultsMessage p)]\<rparr>"

text \<open>
  \<^verbatim>\<open>#showFilteredOptions\<close> from the point where \<^verbatim>\<open>await this.source.buildListItems(filter)\<close>
  has delivered the list items: the popover is emptied, the results or the empty entry
  are shown, and the first option is selected.
\<close>

definition renderFilteredListItems :: "list_item list \<Rightarrow> 's prompt_system \<Rightarrow> 's prompt_system" where
  "renderFilteredListItems filteredListItems sys =
     (let p = (prompt sys)\<lparr>entries := []\<rparr>;
          p' = (if length filteredListItems > 0 then showResults filteredListItems p
                else showEmptyResults p)
      in selectFirstOption (sys\<lparr>prompt := p'\<rparr>))"

text \<open>
  \<^verbatim>\<open>#showFilteredOptions\<close> over a source that filters locally: its \<^verbatim>\<open>buildListItems\<close>
  resolves without waiting for the network.
\<close>

definition showFilteredOptions :: "local_source prompt_system \<Rightarrow> local_source prompt_system" where
  "showFilteredOptions sys =
     (let flt = textBackUntil (editor sys) (trigger (prompt sys))
      in case buildListItems (source sys) (nextRef sys) flt of
           (filteredListItems, src', n') \<Rightarrow>
             renderFilteredListItems filteredListItems (sys\<lparr>source := src', nextRef := n'\<rparr>))"

text \<open>
  \<^verbatim>\<open>#hidePopover\<close>: the part that runs at once, up to \<^verbatim>\<open>await nextFrame()\<close>. The call of
  \<^verbatim>\<open>#addTriggerListener\<close> that follows the \<^verbatim>\<open>await\<close> is left pending.
\<close>

definition hidePopover :: "'s prompt_system \<Rightarrow> 's prompt_system" where
  "hidePopover sys =
     sys\<lparr>prompt := (clearSelection (prompt sys))
            \<lparr>visible := False, changeListener := False, keydownListener := False,
             keyListeners := [], cursorPositionListener := False,
             pendingRearm := Suc (pendingRearm (prompt sys))\<rparr>\<rparr>"

text \<open>
  Modelled from the spec: \<^verbatim>\<open>nextFrame\<close> of \<^verbatim>\<open>helpers/timing_helpers\<close> is not among the
  sources. Closing a session re-arms the trigger watcher for a future trigger; the
  promise that \<^verbatim>\<open>#hidePopover\<close> awaits resolves when the next frame begins, and every
  pending call then goes on to \<^verbatim>\<open>#addTriggerListener\<close>.
\<close>

definition nextFrame :: "'s prompt_system \<Rightarrow> 's prompt_system" where
  "nextFrame sys =
     (if pendingRearm (prompt sys) > 0
      then sys\<lparr>prompt := (prompt sys)\<lparr>triggerListener := True, pendingRearm := 0\<rparr>\<rparr>
      else sys)"

text \<open>\<^verbatim>\<open>#filterOptions\<close>, the listener of \<^verbatim>\<open>lexxy:change\<close>.\<close>

definition filterOptions :: "local_source prompt_system \<Rightarrow> local_source prompt_system" where
  "filterOptions sys =
     (if initialPrompt (prompt sys)
      then sys\<lparr>prompt := (prompt sys)\<lparr>initialPrompt := False\<rparr>\<rparr>
      else if containsTextBackUntil (editor sys) (trigger (prompt sys))
      then showFilteredOptions sys
      else hidePopover sys)"

text \<open>\<^verbatim>\<open>#registerKeyListeners\<close>.\<close>

definition registerKeyListeners :: "prompt_element \<Rightarrow> prompt_element" where
  "registerKeyListeners p =
     p\<lparr>keyListeners := keyListeners p @ [KEY_ENTER_COMMAND, KEY_TAB_COMMAND]
          @ (if doesSpaceSelect p then [KEY_SPACE_COMMAND] else [])
          @ [KEY_ARROW_UP_COMMAND, KEY_ARROW_DOWN_COMMAND]\<rparr>"

text \<open>
  \<^verbatim>\<open>#showPopover\<close>, over a source that filters locally, run through to its end with no
  other event in between.
\<close>

definition showPopover :: "local_source prompt_system \<Rightarrow> local_source prompt_system" where
  "showPopover sys =
     (let sys1 = filterOptions sys;
          sys2 = selectFirstOption (sys1\<lparr>prompt := (prompt sys1)\<lparr>visible := True\<rparr>\<rparr>)
      in sys2\<lparr>prompt := (registerKeyListeners (prompt sys2))
                \<lparr>keydownListener := True, changeListener := True,
                 cursorPositionListener := True\<rparr>\<rparr>)"

text \<open>
  The update listener of \<^verbatim>\<open>#addTriggerListener\<close>: whether, at the selected node and
  offset, it unregisters itself and calls \<^verbatim>\<open>#showPopover\<close>.
\<close>

definition triggerFires :: "string \<Rightarrow> lexical_node option \<times> nat \<Rightarrow> bool" where
  "triggerFires trig sel =
     (case sel of
        (None, offset) \<Rightarrow> False
      | (Some node, offset) \<Rightarrow>
          if isTextNode node \<and> offset > 0 then
            (let fullText = getTextContent node;
                 charBeforeCursor = charAt fullText (offset - 1)
             in if charBeforeCursor = Some trig then
                  (let isAtStart = (offset = 1);
                       charBeforeTrigger = (if offset > 1 then charAt fullText (offset - 2) else None);
                       isPrecededBySpaceOrNewline =
                         (charBeforeTrigger = Some [CHR '' ''] \<or> charBeforeTrigger = Some [CHR 0x0A])
                   in isAtStart \<or> isPrecededBySpaceOrNewline)
                else False)
          else False)"

definition onTriggerListener :: "local_source prompt_system \<Rightarrow> local_source prompt_system" where
  "onTriggerListener sys =
     (if triggerFires (trigger (prompt sys)) (selectedNodeWithOffset (editor sys))
      then showPopover (sys\<lparr>prompt := (prompt sys)\<lparr>triggerListener := False\<rparr>\<rparr>)
      else sys)"

text \<open>The update listener of \<^verbatim>\<open>#addCursorPositionListener\<close>.\<close>

definition onCursorPositionListener :: "'s prompt_system \<Rightarrow> 's prompt_system" where
  "onCursorPositionListener sys =
     (if \<not> is_open sys then sys
      else case selectedNodeWithOffset (editor sys) of
        (None, offset) \<Rightarrow> sys
      | (Some node, offset) \<Rightarrow>
          if isTextNode node \<and> offset > 0 then
            (let fullText = getTextContent node;
                 textBeforeCursor = take offset fullText;
                 lastTriggerIndex = lastIndexOf textBeforeCursor (trigger (prompt sys))
             in case lastTriggerIndex of
                  None \<Rightarrow> hidePopover sys
                | Some i \<Rightarrow> if offset \<le> i then hidePopover sys else sys)
          else hidePopover sys)"

text \<open>
  A change of the document reaches the prompt through the update listeners of the
  editor and through the \<^verbatim>\<open>lexxy:change\<close> event; a listener runs if it was registered
  before the change and still is when its turn comes.
\<close>

definition updateListeners :: "local_source prompt_system \<Rightarrow> local_source prompt_system" where
  "updateListeners sys =
     (let sys1 = (if triggerListener (prompt sys) then onTriggerListener sys else sys)
      in if cursorPositionListener (prompt sys) \<and> cursorPositionListener (prompt sys1)
         then onCursorPositionListener sys1
         else sys1)"

definition lexxyChange :: "local_source prompt_system \<Rightarrow> local_source prompt_system" where
  "lexxyChange sys = (if changeListener (prompt sys) then filterOptions sys else sys)"

definition documentChange :: "lexxy_editor \<Rightarrow> local_source prompt_system \<Rightarrow> local_source prompt_system" where
  "documentChange ed sys =
     (let sys1 = updateListeners (sys\<lparr>editor := ed\<rparr>)
      in if changeListener (prompt sys) then lexxyChange sys1 else sys1)"

subsection \<open>Committing the selected option\<close>

text \<open>\<^verbatim>\<open>#insertTemplateAsEditableText\<close> and \<^verbatim>\<open>#insertTemplateAsAttachment\<close>.\<close>

definition insertTemplateAsEditableText :: "string \<Rightarrow> string \<Rightarrow> lexxy_editor \<Rightarrow> lexxy_editor" where
  "insertTemplateAsEditableText template stringToReplace ed =
     replaceTextBackUntil ed stringToReplace [GeneratedNodes template]"

text \<open>The template literal \<^verbatim>\<open>`application/vnd.actiontext.${this.name}`\<close>.\<close>

definition contentTypeFor :: "string option \<Rightarrow> string" where
  "contentTypeFor nm = ''application/vnd.actiontext.'' @ (case nm of None \<Rightarrow> ''null'' | Some n \<Rightarrow> n)"

definition insertTemplateAsAttachment ::
  "string option \<Rightarrow> prompt_item \<Rightarrow> string \<Rightarrow> string \<Rightarrow> lexxy_editor \<Rightarrow> lexxy_editor" where
  "insertTemplateAsAttachment nm promptItem template stringToReplace ed =
     (let attachmentNode =
            CustomActionTextAttachmentNode (sgid promptItem) (Some (contentTypeFor nm)) template
      in replaceTextBackUntil ed stringToReplace [AttachmentNode attachmentNode])"

text \<open>\<^verbatim>\<open>#replaceTriggerWithSelectedItem\<close>.\<close>

definition replaceTriggerWithSelectedItem ::
  "local_source prompt_system \<Rightarrow> js_error + local_source prompt_system" where
  "replaceTriggerWithSelectedItem sys =
     (case promptItemFor (promptItemByListItem (source sys)) (selectedListItem (prompt sys)) of
        Inl e \<Rightarrow> Inl e
      | Inr None \<Rightarrow> Inr sys
      | Inr (Some promptItem) \<Rightarrow>
          (let template = editor_template promptItem;
               stringToReplace =
                 trigger (prompt sys) @ textBackUntil (editor sys) (trigger (prompt sys))
           in if insertEditableText (prompt sys)
              then Inr (sys\<lparr>editor := insertTemplateAsEditableText template stringToReplace (editor sys)\<rparr>)
              else Inr (sys\<lparr>editor := insertTemplateAsAttachment (name (prompt sys)) promptItem
                                          template stringToReplace (editor sys)\<rparr>)))"

text \<open>
  \<^verbatim>\<open>#optionWasSelected\<close>: the replacement, then \<^verbatim>\<open>#hidePopover\<close>, then the focus goes
  to the editor. An error raised by the replacement ends the call.
\<close>

definition optionWasSelected ::
  "local_source prompt_system \<Rightarrow> js_error + local_source prompt_system" where
  "optionWasSelected sys =
     (case replaceTriggerWithSelectedItem sys of
        Inl e \<Rightarrow> Inl e
      | Inr sys1 \<Rightarrow>
          (let sys2 = hidePopover sys1
           in Inr (sys2\<lparr>editor := (editor sys2)\<lparr>focused := True\<rparr>\<rparr>)))"

text \<open>
  The commands registered by \<^verbatim>\<open>#registerKeyListeners\<close>: Enter, Tab and (when registered)
  Space run \<^verbatim>\<open>#handleSelectedOption\<close>, which calls \<^verbatim>\<open>#optionWasSelected\<close>; the arrow
  keys run \<^verbatim>\<open>#handleArrowUp\<close> and \<^verbatim>\<open>#handleArrowDown\<close>. A command with no listener of
  the prompt is left to the editor.
\<close>

definition keyCommand ::
  "key_command \<Rightarrow> local_source prompt_system \<Rightarrow> js_error + local_source prompt_system" where
  "keyCommand cmd sys =
     (if cmd \<in> set (keyListeners (prompt sys)) then
        (case cmd of
           KEY_ARROW_UP_COMMAND \<Rightarrow> Inr (moveSelectionUp sys)
         | KEY_ARROW_DOWN_COMMAND \<Rightarrow> Inr (moveSelectionDown sys)
         | _ \<Rightarrow> optionWasSelected sys)
      else Inr sys)"

text \<open>
  \<^verbatim>\<open>#handlePopoverClick\<close>: \<^verbatim>\<open>event.target.closest(".lexxy-prompt-menu__item")\<close> finds a
  list item only when the click lands on one.
\<close>

definition handlePopoverClick ::
  "menu_entry \<Rightarrow> local_source prompt_system \<Rightarrow> js_error + local_source prompt_system" where
  "handlePopoverClick target sys =
     (case target of
        Item listItem \<Rightarrow> optionWasSelected (selectOption listItem sys)
      | EmptyEntry m \<Rightarrow> Inr sys)"

text \<open>\<^verbatim>\<open>#handleKeydownOnPopover\<close> for the key Escape.\<close>

definition handleEscape :: "'s prompt_system \<Rightarrow> 's prompt_system" where
  "handleEscape sys =
     (let sys1 = hidePopover sys in sys1\<lparr>editor := (editor sys1)\<lparr>focused := True\<rparr>\<rparr>)"

subsection \<open>The deferred source\<close>

text \<open>
  A \<^verbatim>\<open>DeferredPromptSource\<close> and the requests it has sent: its \<^verbatim>\<open>url\<close>, its field
  \<^verbatim>\<open>promptItems\<close> (\<^verbatim>\<open>undefined\<close> until a response is stored), the URLs passed to
  \<^verbatim>\<open>fetch\<close> by \<^verbatim>\<open>loadPromptItemsFromUrl\<close>, oldest first, and the requests (positions in
  that list) whose call of \<^verbatim>\<open>fetchPromptItems\<close> is suspended at its \<^verbatim>\<open>await\<close>.
\<close>

record deferred_source =
  url :: string
  promptItems :: "prompt_item list option"
  requested :: "string list"
  awaiting :: "nat list"

text \<open>
  \<^verbatim>\<open>fetchPromptItems\<close>, up to its first suspension.
  \<^verbatim>\<open>this.promptItems ??= await this.loadPromptItemsFromUrl(this.url)\<close> reads
  \<^verbatim>\<open>this.promptItems\<close> first; only when it is \<^verbatim>\<open>undefined\<close> is the right-hand side
  evaluated, which sends a request and suspends the call (result \<^term>\<open>None\<close>).
  Otherwise the call resolves to the cached items.
\<close>

definition fetchPromptItems :: "deferred_source \<Rightarrow> deferred_source \<times> prompt_item list option" where
  "fetchPromptItems s =
     (case promptItems s of
        Some items \<Rightarrow> (s, Some items)
      | None \<Rightarrow>
          (s\<lparr>requested := requested s @ [url s],
             awaiting := awaiting s @ [length (requested s)]\<rparr>, None))"

text \<open>
  The response to request \<^verbatim>\<open>k\<close> arrives with the prompt items parsed from it: the
  suspended call resumes and performs the assignment to \<^verbatim>\<open>this.promptItems\<close>. When the
  request fails, \<^verbatim>\<open>loadPromptItemsFromUrl\<close> rejects and nothing is assigned.
\<close>

definition deferredResponse :: "nat \<Rightarrow> prompt_item list \<Rightarrow> deferred_source \<Rightarrow> deferred_source" where
  "deferredResponse k items s =
     (if k \<in> set (awaiting s)
      then s\<lparr>promptItems := Some items, awaiting := removeAll k (awaiting s)\<rparr>
      else s)"

definition deferredFailure :: "nat \<Rightarrow> deferred_source \<Rightarrow> deferred_source" where
  "deferredFailure k s =
     (if k \<in> set (awaiting s) then s\<lparr>awaiting := removeAll k (awaiting s)\<rparr> else s)"

text \<open>
  \<^verbatim>\<open>buildListItems(filter)\<close> of a deferred source, which it inherits from
  \<^verbatim>\<open>LocalFilterSource\<close>: it awaits \<^verbatim>\<open>fetchPromptItems()\<close> and filters what that
  resolves to; the result is \<^term>\<open>None\<close> when the call is suspended.
\<close>

definition deferredBuildListItems ::
  "deferred_source \<Rightarrow> nat \<Rightarrow> string \<Rightarrow> deferred_source \<times> build_state option" where
  "deferredBuildListItems s n flt =
     (case fetchPromptItems s of
        (s', None) \<Rightarrow> (s', None)
      | (s', Some items) \<Rightarrow> (s', Some (buildListItemsFromPromptItems n items flt)))"

text \<open>\<^verbatim>\<open>new DeferredPromptSource(url)\<close>: the constructor calls \<^verbatim>\<open>fetchPromptItems\<close>.\<close>

definition DeferredPromptSource :: "string \<Rightarrow> deferred_source" where
  "DeferredPromptSource u =
     fst (fetchPromptItems \<lparr>url = u, promptItems = None, requested = [], awaiting = []\<rparr>)"

subsection \<open>The remote filter source\<close>

definition DEBOUNCE_INTERVAL :: nat where
  "DEBOUNCE_INTERVAL = 200"

text \<open>A URL: the base and the search parameters appended to it.\<close>

datatype request_url = URL string "(string \<times> string) list"

text \<open>\<^verbatim>\<open>#urlFor(filter)\<close>.\<close>

definition urlFor :: "string \<Rightarrow> string \<Rightarrow> request_url" where
  "urlFor base flt = URL base [(''filter'', flt)]"

text \<open>
  A \<^verbatim>\<open>RemoteFilterSource\<close>: its \<^verbatim>\<open>baseURL\<close>, its field \<^verbatim>\<open>promptItemByListItem\<close> and the
  state of its debounced function \<^verbatim>\<open>loadAndFilterListItems\<close>.

  The helper \<^verbatim>\<open>debounceAsync\<close> of \<^verbatim>\<open>helpers/timing_helpers\<close>, which makes that function,
  is not among the sources. The specification describes it as a debounce with a fixed
  trailing window: an action is delayed until a quiet period with no triggering event
  has elapsed, so that rapid calls collapse into one retrieval fired after typing
  pauses; the documentation of \<^verbatim>\<open>RemoteFilterSource\<close> adds that a new keystroke cancels
  the pending request and that a request is sent only after the interval without
  typing. The state of the debounced function is therefore one timer, \<^verbatim>\<open>timeout\<close>: the
  time at which it fires and the argument of the call that armed it.
\<close>

record remote_source =
  baseURL :: string
  remoteItemByListItem :: "(nat \<rightharpoonup> prompt_item) option"
  timeout :: "(nat \<times> string) option"

text \<open>
  The prompt over a remote source, with the clock (in milliseconds), the requests sent
  so far (when, and to which URL) and the requests still unanswered (positions in that
  list). The caller of every \<^verbatim>\<open>buildListItems\<close> is \<^verbatim>\<open>#showFilteredOptions\<close>, suspended at
  its \<^verbatim>\<open>await\<close>.
\<close>

record remote_world =
  session :: "remote_source prompt_system"
  clock :: nat
  fetched :: "(nat \<times> request_url) list"
  inflight :: "nat list"

text \<open>
  Modelled from the spec: the function that \<^verbatim>\<open>debounceAsync\<close> (not among the sources)
  returns, called by \<^verbatim>\<open>buildListItems(filter)\<close> at the present time. The call disarms
  the timer and arms a new one, due after the debounce interval; the call that armed the
  old timer is never settled.
\<close>

definition loadAndFilterListItems :: "string \<Rightarrow> remote_world \<Rightarrow> remote_world" where
  "loadAndFilterListItems flt w =
     w\<lparr>session := (session w)
          \<lparr>source := (source (session w))\<lparr>timeout := Some (clock w + DEBOUNCE_INTERVAL, flt)\<rparr>\<rparr>\<rparr>"

text \<open>
  Modelled from the spec: the timer of \<^verbatim>\<open>debounceAsync\<close> (not among the sources) fires
  and runs the wrapped function with the argument of the call that armed it:
  \<^verbatim>\<open>fetchFilteredListItems(filter)\<close> starts and \<^verbatim>\<open>loadPromptItemsFromUrl\<close> sends the
  request.
\<close>

definition timerFires :: "remote_world \<Rightarrow> remote_world" where
  "timerFires w =
     (case timeout (source (session w)) of
        None \<Rightarrow> w
      | Some (due, flt) \<Rightarrow>
          w\<lparr>session := (session w)\<lparr>source := (source (session w))\<lparr>timeout := None\<rparr>\<rparr>,
            clock := max (clock w) due,
            fetched := fetched w @ [(max (clock w) due, urlFor (baseURL (source (session w))) flt)],
            inflight := inflight w @ [length (fetched w)]\<rparr>)"

text \<open>
  Modelled from the spec: time passes until \<^verbatim>\<open>t\<close>, and the timer of \<^verbatim>\<open>debounceAsync\<close>
  (not among the sources) fires if it is due by then.
\<close>

definition advance :: "nat \<Rightarrow> remote_world \<Rightarrow> remote_world" where
  "advance t w =
     (let w1 = (case timeout (source (session w)) of
                  None \<Rightarrow> w
                | Some (due, flt) \<Rightarrow> if due \<le> t then timerFires w else w)
      in w1\<lparr>clock := max (clock w1) t\<rparr>)"

text \<open>\<^verbatim>\<open>RemoteFilterSource.#buildListItemsFromPromptItems\<close>: every prompt item gets a list item.\<close>

fun remote_build_loop :: "prompt_item list \<Rightarrow> build_state \<Rightarrow> build_state" where
  "remote_build_loop [] b = b"
| "remote_build_loop (promptItem # ps) b =
     (let listItem = buildListItemElementFor (fresh b) promptItem
      in remote_build_loop ps
           \<lparr>listItems = listItems b @ [listItem],
            byListItem = (byListItem b)(li_ref listItem \<mapsto> promptItem),
            fresh = Suc (fresh b)\<rparr>)"

definition remoteBuildListItemsFromPromptItems :: "nat \<Rightarrow> prompt_item list \<Rightarrow> build_state" where
  "remoteBuildListItemsFromPromptItems n items =
     remote_build_loop items \<lparr>listItems = [], byListItem = Map.empty, fresh = n\<rparr>"

text \<open>
  \<^verbatim>\<open>fetchFilteredListItems\<close> from the point where \<^verbatim>\<open>loadPromptItemsFromUrl\<close> has
  delivered the prompt items of a response: it builds the list items and replaces the
  association table. It does so on every response; it knows nothing of other requests.
\<close>

definition fetchFilteredListItems ::
  "prompt_item list \<Rightarrow> remote_source prompt_system \<Rightarrow> list_item list \<times> remote_source prompt_system" where
  "fetchFilteredListItems items sys =
     (let b = remoteBuildListItemsFromPromptItems (nextRef sys) items
      in (listItems b,
          sys\<lparr>source := (source sys)\<lparr>remoteItemByListItem := Some (byListItem b)\<rparr>,
              nextRef := fresh b\<rparr>))"

text \<open>
  Modelled from the spec: which results the function made by \<^verbatim>\<open>debounceAsync\<close> (not among
  the sources) hands on to its caller. Responses are ordered by the time of their
  request; a response is discarded, not rendered, if a newer request has been issued
  since, and results are applied only if their request is the latest one issued when it
  completes. Requests are numbered in the order in which they were sent.
\<close>

definition latestIssued :: "nat \<Rightarrow> remote_world \<Rightarrow> bool" where
  "latestIssued k w = (Suc k = length (fetched w))"

text \<open>
  Modelled from the spec: the response to request \<^verbatim>\<open>k\<close> arrives with the prompt items
  parsed from it. \<^verbatim>\<open>fetchFilteredListItems\<close> resumes and returns its list items to the
  function made by \<^verbatim>\<open>debounceAsync\<close> (not among the sources); the promise that
  \<^verbatim>\<open>#showFilteredOptions\<close> awaits is settled with them if the request is the latest one
  issued, and \<^verbatim>\<open>#showFilteredOptions\<close> then renders them; otherwise they are discarded.
  \<^verbatim>\<open>#showFilteredOptions\<close> and \<^verbatim>\<open>RemoteFilterSource\<close> themselves compare no request with
  another.
\<close>

definition responseArrives :: "nat \<Rightarrow> prompt_item list \<Rightarrow> remote_world \<Rightarrow> remote_world" where
  "responseArrives k items w =
     (if k \<in> set (inflight w) then
        (case fetchFilteredListItems items (session w) of
           (filteredListItems, sys1) \<Rightarrow>
             w\<lparr>session := (if latestIssued k w then renderFilteredListItems filteredListItems sys1
                           else sys1),
               inflight := removeAll k (inflight w)\<rparr>)
      else w)"

text \<open>
  The request fails: \<^verbatim>\<open>loadPromptItemsFromUrl\<close> rejects, \<^verbatim>\<open>fetchFilteredListItems\<close> builds
  nothing and nothing is rendered.
\<close>

definition requestFails :: "nat \<Rightarrow> remote_world \<Rightarrow> remote_world" where
  "requestFails k w = (if k \<in> set (inflight w) then w\<lparr>inflight := removeAll k (inflight w)\<rparr> else w)"

text \<open>\<^verbatim>\<open>#showFilteredOptions\<close> and \<^verbatim>\<open>#filterOptions\<close> over the remote source, up to the \<^verbatim>\<open>await\<close>.\<close>

definition remoteShowFilteredOptions :: "remote_world \<Rightarrow> remote_world" where
  "remoteShowFilteredOptions w =
     (let flt = textBackUntil (editor (session w)) (trigger (prompt (session w)))
      in loadAndFilterListItems flt w)"

definition remoteFilterOptions :: "remote_world \<Rightarrow> remote_world" where
  "remoteFilterOptions w =
     (if initialPrompt (prompt (session w))
      then w\<lparr>session := (session w)\<lparr>prompt := (prompt (session w))\<lparr>initialPrompt := False\<rparr>\<rparr>\<rparr>
      else if containsTextBackUntil (editor (session w)) (trigger (prompt (session w)))
      then remoteShowFilteredOptions w
      else w\<lparr>session := hidePopover (session w)\<rparr>)"

text \<open>
  A change of the document while the prompt is over a remote source: the cursor
  listener, then the listener of \<^verbatim>\<open>lexxy:change\<close>, each if registered.
\<close>

definition remoteDocumentChange :: "lexxy_editor \<Rightarrow> remote_world \<Rightarrow> remote_world" where
  "remoteDocumentChange ed w =
     (let sys = (session w)\<lparr>editor := ed\<rparr>;
          sys1 = (if cursorPositionListener (prompt sys) then onCursorPositionListener sys else sys);
          w1 = w\<lparr>session := sys1\<rparr>
      in if changeListener (prompt sys) \<and> changeListener (prompt sys1)
         then remoteFilterOptions w1 else w1)"

text \<open>What happens to the prompt, and when (in milliseconds).\<close>

datatype remote_event =
    DocumentChange lexxy_editor
  | ResponseArrives nat "prompt_item list"
  | RequestFails nat

definition remote_step :: "remote_world \<Rightarrow> nat \<times> remote_event \<Rightarrow> remote_world" where
  "remote_step w e =
     (let w1 = advance (fst e) w
      in case snd e of
           DocumentChange ed \<Rightarrow> remoteDocumentChange ed w1
         | ResponseArrives k items \<Rightarrow> responseArrives k items w1
         | RequestFails k \<Rightarrow> requestFails k w1)"

definition remote_run :: "(nat \<times> remote_event) list \<Rightarrow> remote_world \<Rightarrow> remote_world" where
  "remote_run es w = foldl remote_step w es"

subsection \<open>Auxiliary notions and sample data\<close>

text \<open>The condition under which the filtering loop keeps a prompt item.\<close>

definition matches :: "string \<Rightarrow> prompt_item \<Rightarrow> bool" where
  "matches flt p = (flt = [] \<or> filterMatches (search p) flt)"

definition john_doe :: prompt_item where
  "john_doe = \<lparr>search = ''John Doe'', sgid = Some ''R1'', menu_template = ''John Doe'',
               editor_template = ''<em>John Doe</em>''\<rparr>"

definition jane_roe :: prompt_item where
  "jane_roe = \<lparr>search = ''Jane Roe'', sgid = Some ''R2'', menu_template = ''Jane Roe'',
               editor_template = ''<em>Jane Roe</em>''\<rparr>"

definition joe_unsigned :: prompt_item where
  "joe_unsigned = \<lparr>search = ''Joe Bloggs'', sgid = None, menu_template = ''Joe Bloggs'',
               editor_template = ''<em>Joe Bloggs</em>''\<rparr>"

definition mention_prompt :: prompt_element where
  "mention_prompt =
     \<lparr>trigger = ''@'', name = Some ''mention'', insertEditableText = False,
      supportsSpaceInSearches = False, emptyResults = None, initialPrompt = False,
      entries = [], visible = False, emptyClass = False, ariaActivedescendant = None,
      keyListeners = [], keydownListener = False, changeListener = False,
      cursorPositionListener = False, triggerListener = True, pendingRearm = 0\<rparr>"

text \<open>An editor holding one text node, with the cursor at the given offset.\<close>

definition typed :: "string \<Rightarrow> nat \<Rightarrow> lexxy_editor" where
  "typed s off = \<lparr>nodes = [TextNode s], selection = Some (0, off), focused = True\<rparr>"

definition two_nodes :: "nat \<Rightarrow> nat \<Rightarrow> lexxy_editor" where
  "two_nodes i off =
     \<lparr>nodes = [TextNode ''x@y'', TextNode ''hi @''], selection = Some (i, off), focused = True\<rparr>"

definition people_system :: "local_source prompt_system" where
  "people_system =
     \<lparr>prompt = mention_prompt, editor = typed [] 0,
      source = InlinePromptSource [john_doe, jane_roe, joe_unsigned], nextRef = 0\<rparr>"

text \<open>A prompt with no candidates, after \<^verbatim>\<open>hi @\<close> has been typed.\<close>

definition nobody_system :: "local_source prompt_system" where
  "nobody_system =
     \<lparr>prompt = mention_prompt, editor = typed ''hi @'' 4, source = InlinePromptSource [], nextRef = 0\<rparr>"

text \<open>The session that typing \<^verbatim>\<open>hi @\<close> opens, and what further typing makes of it.\<close>

definition opened_session :: "local_source prompt_system" where
  "opened_session = updateListeners (people_system\<lparr>editor := typed ''hi @'' 4\<rparr>)"

definition no_match_session :: "local_source prompt_system" where
  "no_match_session = documentChange (typed ''hi @zzz'' 7) opened_session"

definition jane_session :: "local_source prompt_system" where
  "jane_session = documentChange (typed ''hi @jan and more'' 7) opened_session"

definition joe_session :: "local_source prompt_system" where
  "joe_session = documentChange (typed ''hi @joe'' 7) opened_session"

text \<open>
  The session of \<^verbatim>\<open>hi @\<close> just closed with Escape, before the next frame; and the session
  that typing \<^verbatim>\<open>a@b @\<close> opens, at the trigger character of index 4.
\<close>

definition escaped_session :: "local_source prompt_system" where
  "escaped_session = handleEscape opened_session"

definition email_session :: "local_source prompt_system" where
  "email_session = updateListeners (people_system\<lparr>editor := typed ''a@b @'' 5\<rparr>)"

text \<open>
  Whether the cursor is in a text node with the character \<^verbatim>\<open>c\<close> somewhere before it.
\<close>

definition cursor_after_trigger :: "char \<Rightarrow> lexxy_editor \<Rightarrow> bool" where
  "cursor_after_trigger c ed =
     (case selectedNodeWithOffset ed of
        (Some (TextNode fullText), off) \<Rightarrow> c \<in> set (take off fullText)
      | _ \<Rightarrow> False)"

text \<open>
  A session that is open with its cursor and change listeners registered, for the
  trigger character \<^verbatim>\<open>c\<close>.
\<close>

definition listening :: "char \<Rightarrow> 's prompt_system \<Rightarrow> bool" where
  "listening c sys =
     (is_open sys \<and> cursorPositionListener (prompt sys) \<and> changeListener (prompt sys)
      \<and> \<not> initialPrompt (prompt sys) \<and> trigger (prompt sys) = [c])"

text \<open>
  Changes of the document given by their time and the editor state they lead to; the
  time and filter string of such a change; and changes that follow a change at time
  \<^verbatim>\<open>t\<close> with less than the debounce interval between one and the next.
\<close>

definition changes :: "(nat \<times> lexxy_editor) list \<Rightarrow> (nat \<times> remote_event) list" where
  "changes cs = map (\<lambda>(t, ed). (t, DocumentChange ed)) cs"

definition filter_of :: "char \<Rightarrow> nat \<times> lexxy_editor \<Rightarrow> nat \<times> string" where
  "filter_of c change = (fst change, textBackUntil (snd change) [c])"

fun rapid :: "nat \<Rightarrow> (nat \<times> lexxy_editor) list \<Rightarrow> bool" where
  "rapid t [] = True"
| "rapid t ((t', ed) # cs) = (t \<le> t' \<and> t' < t + DEBOUNCE_INTERVAL \<and> rapid t' cs)"

text \<open>
  The requests sent so far lie at least the debounce interval apart and in the past,
  and an armed timer is due no sooner than the interval after each of them.
\<close>

definition spaced :: "remote_world \<Rightarrow> bool" where
  "spaced w =
     (sorted_wrt (\<lambda>a b. fst a + DEBOUNCE_INTERVAL \<le> fst b) (fetched w)
      \<and> list_all (\<lambda>r. fst r \<le> clock w) (fetched w)
      \<and> (case timeout (source (session w)) of
            None \<Rightarrow> True
          | Some (due, flt) \<Rightarrow> list_all (\<lambda>r. fst r + DEBOUNCE_INTERVAL \<le> due) (fetched w)))"

text \<open>An open session over a remote source, and the events of a race between two retrievals.\<close>

definition remote_session :: remote_world where
  "remote_session =
     \<lparr>session =
        \<lparr>prompt = mention_prompt\<lparr>visible := True, triggerListener := False,
             changeListener := True, cursorPositionListener := True, keydownListener := True,
             keyListeners := [KEY_ENTER_COMMAND, KEY_TAB_COMMAND, KEY_SPACE_COMMAND,
                              KEY_ARROW_UP_COMMAND, KEY_ARROW_DOWN_COMMAND]\<rparr>,
         editor = typed ''hello @'' 7,
         source = \<lparr>baseURL = ''/people'', remoteItemByListItem = Some Map.empty, timeout = None\<rparr>,
         nextRef = 0\<rparr>,
      clock = 0, fetched = [], inflight = []\<rparr>"

definition race_until_second_response :: "(nat \<times> remote_event) list" where
  "race_until_second_response =
     [(0, DocumentChange (typed ''hello @jo'' 9)),
      (250, DocumentChange (typed ''hello @joh'' 10)),
      (500, ResponseArrives 1 [john_doe])]"

definition race :: "(nat \<times> remote_event) list" where
  "race = race_until_second_response @ [(600, ResponseArrives 0 [john_doe, joe_unsigned])]"

text \<open>Both retrievals of the race in flight.\<close>

definition both_in_flight :: remote_world where
  "both_in_flight =
     advance 460 (remote_run (changes [(0, typed ''hello @jo'' 9), (250, typed ''hello @joh'' 10)])
       remote_session)"

text \<open>Three keystrokes, each less than the debounce interval after the one before.\<close>

definition burst :: "(nat \<times> lexxy_editor) list" where
  "burst = [(0, typed ''hello @j'' 8), (120, typed ''hello @jo'' 9), (310, typed ''hello @joh'' 10)]"

section \<open>Properties\<close>

subsection \<open>String primitives\<close>

lemma startsWith_append: "startsWith (t @ s) t"
  by (simp add: startsWith_def)

lemma startsWith_iff: "startsWith s t \<longleftrightarrow> (\<exists>post. s = t @ post)"
  unfolding startsWith_def
  by (metis append_eq_conv_conj append_take_drop_id)

lemma js_includes_iff: "js_includes s t \<longleftrightarrow> (\<exists>pre post. s = pre @ t @ post)"
proof (induction s)
  case Nil
  then show ?case by auto
next
  case (Cons c s)
  show ?case
  proof
    assume "js_includes (c # s) t"
    then consider "startsWith (c # s) t" | "js_includes s t" by auto
    then show "\<exists>pre post. c # s = pre @ t @ post"
    proof cases
      case 1
      then obtain post where "c # s = t @ post" by (auto simp: startsWith_iff)
      then have "c # s = [] @ t @ post" by simp
      then show ?thesis by blast
    next
      case 2
      then obtain pre post where "s = pre @ t @ post" using Cons.IH by blast
      then have "c # s = (c # pre) @ t @ post" by simp
      then show ?thesis by blast
    qed
  next
    assume "\<exists>pre post. c # s = pre @ t @ post"
    then obtain pre post where eq: "c # s = pre @ t @ post" by blast
    show "js_includes (c # s) t"
    proof (cases pre)
      case Nil
      with eq have "startsWith (c # s) t" by (auto simp: startsWith_iff)
      then show ?thesis by simp
    next
      case (Cons d pre')
      with eq have "s = pre' @ t @ post" by simp
      then have "js_includes s t" using Cons.IH by blast
      then show ?thesis by simp
    qed
  qed
qed

subsection \<open>Local filtering\<close>

lemma build_step_matches:
  "matches flt p \<Longrightarrow> build_step flt p b =
     \<lparr>listItems = listItems b @ [buildListItemElementFor (fresh b) p],
      byListItem = (byListItem b)(fresh b \<mapsto> p), fresh = Suc (fresh b)\<rparr>"
  by (simp add: build_step_def matches_def buildListItemElementFor_def Let_def)

lemma build_step_no_match: "\<not> matches flt p \<Longrightarrow> build_step flt p b = b"
  by (simp add: build_step_def matches_def)

lemma build_loop_html:
  "map li_html (listItems (build_loop flt ps b)) =
     map li_html (listItems b) @ map menu_template (filter (matches flt) ps)"
proof (induction ps arbitrary: b)
  case Nil
  show ?case by simp
next
  case (Cons p ps)
  show ?case
  proof (cases "matches flt p")
    case True
    then show ?thesis
      by (simp add: Cons.IH build_step_matches buildListItemElementFor_def)
  next
    case False
    then show ?thesis by (simp add: Cons.IH build_step_no_match)
  qed
qed

lemma build_loop_refs:
  "map li_ref (listItems (build_loop flt ps b)) =
     map li_ref (listItems b) @ [fresh b ..< fresh b + length (filter (matches flt) ps)]"
proof (induction ps arbitrary: b)
  case Nil
  show ?case by simp
next
  case (Cons p ps)
  show ?case
  proof (cases "matches flt p")
    case True
    have "[fresh b ..< fresh b + Suc k] = fresh b # [Suc (fresh b) ..< Suc (fresh b) + k]" for k
      by (simp add: upt_conv_Cons)
    with True show ?thesis
      by (simp add: Cons.IH build_step_matches buildListItemElementFor_def)
  next
    case False
    then show ?thesis by (simp add: Cons.IH build_step_no_match)
  qed
qed

lemma build_loop_fresh:
  "fresh (build_loop flt ps b) = fresh b + length (filter (matches flt) ps)"
proof (induction ps arbitrary: b)
  case Nil
  show ?case by simp
next
  case (Cons p ps)
  show ?case
    by (cases "matches flt p") (simp_all add: Cons.IH build_step_matches build_step_no_match)
qed

lemma build_loop_resolve:
  assumes "\<forall>li \<in> set (listItems b). li_ref li < fresh b"
    and "map (\<lambda>li. byListItem b (li_ref li)) (listItems b) = map Some qs"
  shows "map (\<lambda>li. byListItem (build_loop flt ps b) (li_ref li)) (listItems (build_loop flt ps b)) =
           map Some (qs @ filter (matches flt) ps)"
  using assms
proof (induction ps arbitrary: b qs)
  case Nil
  then show ?case by simp
next
  case (Cons p ps)
  show ?case
  proof (cases "matches flt p")
    case True
    let ?b = "build_step flt p b"
    have b': "?b = \<lparr>listItems = listItems b @ [buildListItemElementFor (fresh b) p],
      byListItem = (byListItem b)(fresh b \<mapsto> p), fresh = Suc (fresh b)\<rparr>"
      using True by (rule build_step_matches)
    have 1: "\<forall>li \<in> set (listItems ?b). li_ref li < fresh ?b"
      using Cons.prems(1) by (auto simp: b' buildListItemElementFor_def less_Suc_eq)
    have "map (\<lambda>li. ((byListItem b)(fresh b \<mapsto> p)) (li_ref li)) (listItems b)
            = map (\<lambda>li. byListItem b (li_ref li)) (listItems b)"
      using Cons.prems(1) by (intro map_cong) auto
    then have 2: "map (\<lambda>li. byListItem ?b (li_ref li)) (listItems ?b) = map Some (qs @ [p])"
      using Cons.prems(2) by (simp add: b' buildListItemElementFor_def)
    show ?thesis
      using Cons.IH [OF 1 2] True by simp
  next
    case False
    then show ?thesis using Cons.IH [OF Cons.prems] by (simp add: build_step_no_match)
  qed
qed

lemma matches_iff:
  "matches flt p \<longleftrightarrow> (\<exists>pre post. toLowerCase (search p) = pre @ toLowerCase flt @ post)"
proof (cases "flt = []")
  case True
  have "toLowerCase (search p) = [] @ toLowerCase [] @ toLowerCase (search p)"
    by (simp add: toLowerCase_def)
  then show ?thesis using True unfolding matches_def by blast
next
  case False
  then show ?thesis by (simp add: matches_def filterMatches_def js_includes_iff)
qed

lemma buildListItemsFromPromptItems_exact:
  "map (\<lambda>li. byListItem (buildListItemsFromPromptItems n items flt) (li_ref li))
       (listItems (buildListItemsFromPromptItems n items flt))
     = map Some (filter (matches flt) items)"
  "map li_html (listItems (buildListItemsFromPromptItems n items flt))
     = map menu_template (filter (matches flt) items)"
  "distinct (map li_ref (listItems (buildListItemsFromPromptItems n items flt)))"
proof -
  let ?init = "\<lparr>listItems = [], byListItem = Map.empty, fresh = n\<rparr>"
  show "map (\<lambda>li. byListItem (buildListItemsFromPromptItems n items flt) (li_ref li))
       (listItems (buildListItemsFromPromptItems n items flt))
     = map Some (filter (matches flt) items)"
    using build_loop_resolve [where b = ?init and qs = "[]" and flt = flt and ps = items]
    by (simp add: buildListItemsFromPromptItems_def)
  show "map li_html (listItems (buildListItemsFromPromptItems n items flt))
     = map menu_template (filter (matches flt) items)"
    using build_loop_html [of flt items ?init] by (simp add: buildListItemsFromPromptItems_def)
  show "distinct (map li_ref (listItems (buildListItemsFromPromptItems n items flt)))"
    using build_loop_refs [of flt items ?init] by (simp add: buildListItemsFromPromptItems_def)
qed

text \<open>
  Claim C3. For every list of candidates and every filter string, \<^verbatim>\<open>buildListItems\<close> of
  an inline source holding the candidates, and of a deferred source that has loaded
  them, returns one menu entry for each candidate whose search key contains the filter
  string when case is ignored, in the order of the candidates, and none for any other
  candidate: the entries resolve, one by one and in order, to exactly those candidates;
  each shows its candidate's menu template; and they are distinct elements. The deferred
  source sends no request for it.
\<close>

theorem buildListItems_exact:
  fixes items :: "prompt_item list" and flt :: string
  defines "wanted \<equiv> filter (\<lambda>p. \<exists>pre post. toLowerCase (search p) = pre @ toLowerCase flt @ post) items"
  assumes "fetchedPromptItems src = items" and "promptItems d = Some items"
  shows "(case buildListItems src n flt of (lis, src', n') \<Rightarrow>
            map (\<lambda>li. promptItemFor (promptItemByListItem src') (Some li)) lis
              = map (\<lambda>p. Inr (Some p)) wanted
          \<and> map li_html lis = map menu_template wanted
          \<and> distinct (map li_ref lis))
       \<and> (case deferredBuildListItems d n flt of (d', r) \<Rightarrow>
            d' = d
          \<and> (case r of
                None \<Rightarrow> False
              | Some b \<Rightarrow>
                  map (\<lambda>li. promptItemFor (Some (byListItem b)) (Some li)) (listItems b)
                    = map (\<lambda>p. Inr (Some p)) wanted
                \<and> map li_html (listItems b) = map menu_template wanted
                \<and> distinct (map li_ref (listItems b))))"
proof -
  have w: "wanted = filter (matches flt) items"
    unfolding wanted_def by (simp add: matches_iff [symmetric])
  let ?b = "buildListItemsFromPromptItems n items flt"
  have "map (\<lambda>li. promptItemFor (Some (byListItem ?b)) (Some li)) (listItems ?b)
          = map (\<lambda>x. Inr x) (map (\<lambda>li. byListItem ?b (li_ref li)) (listItems ?b))"
    by (simp add: promptItemFor_def)
  also have "\<dots> = map (\<lambda>p. Inr (Some p)) wanted"
    by (simp add: buildListItemsFromPromptItems_exact(1) w)
  finally have 1: "map (\<lambda>li. promptItemFor (Some (byListItem ?b)) (Some li)) (listItems ?b)
                     = map (\<lambda>p. Inr (Some p)) wanted" .
  have 2: "map li_html (listItems ?b) = map menu_template wanted"
    by (simp add: buildListItemsFromPromptItems_exact(2) w)
  have 3: "distinct (map li_ref (listItems ?b))"
    by (rule buildListItemsFromPromptItems_exact(3))
  have local: "case buildListItems src n flt of (lis, src', n') \<Rightarrow>
            map (\<lambda>li. promptItemFor (promptItemByListItem src') (Some li)) lis
              = map (\<lambda>p. Inr (Some p)) wanted
          \<and> map li_html lis = map menu_template wanted
          \<and> distinct (map li_ref lis)"
    using 1 2 3 by (simp add: buildListItems_def Let_def assms(2))
  have deferred: "deferredBuildListItems d n flt = (d, Some ?b)"
    by (simp add: deferredBuildListItems_def fetchPromptItems_def assms(3))
  show ?thesis
    using local 1 2 3 by (simp add: deferred)
qed

lemma matches_jO_john: "matches ''jO'' john_doe"
  unfolding matches_def filterMatches_def john_doe_def by code_simp

lemma matches_jO_jane: "\<not> matches ''jO'' jane_roe"
  unfolding matches_def filterMatches_def jane_roe_def by code_simp

theorem buildListItems_exact_witness:
  "fetchedPromptItems (InlinePromptSource [john_doe, jane_roe, john_doe]) = [john_doe, jane_roe, john_doe]
   \<and> promptItems (deferredResponse 0 [john_doe, jane_roe, john_doe] (DeferredPromptSource ''/people''))
       = Some [john_doe, jane_roe, john_doe]
   \<and> (case buildListItems (InlinePromptSource [john_doe, jane_roe, john_doe]) 0 ''jO'' of
        (lis, src', n') \<Rightarrow>
          map (\<lambda>li. promptItemFor (promptItemByListItem src') (Some li)) lis
            = [Inr (Some john_doe), Inr (Some john_doe)]
        \<and> map li_html lis = [''John Doe'', ''John Doe'']
        \<and> distinct (map li_ref lis))
   \<and> fst (deferredBuildListItems
        (deferredResponse 0 [john_doe, jane_roe, john_doe] (DeferredPromptSource ''/people'')) 0 ''jO'')
       = deferredResponse 0 [john_doe, jane_roe, john_doe] (DeferredPromptSource ''/people'')
   \<and> map li_html (listItems (the (snd (deferredBuildListItems
        (deferredResponse 0 [john_doe, jane_roe, john_doe] (DeferredPromptSource ''/people'')) 0 ''jO''))))
       = [''John Doe'', ''John Doe'']"
proof -
  let ?items = "[john_doe, jane_roe, john_doe]"
  let ?d = "deferredResponse 0 ?items (DeferredPromptSource ''/people'')"
  have m: "menu_template john_doe = ''John Doe''"
    by (simp add: john_doe_def)
  have i: "fetchedPromptItems (InlinePromptSource ?items) = ?items"
    by (simp add: InlinePromptSource_def)
  have l: "promptItems ?d = Some ?items"
    by (simp add: DeferredPromptSource_def fetchPromptItems_def deferredResponse_def)
  obtain lis src' n' where
    b: "buildListItems (InlinePromptSource ?items) 0 ''jO'' = (lis, src', n')"
    using prod_cases3 by blast
  obtain d' r where db: "deferredBuildListItems ?d 0 ''jO'' = (d', r)"
    by (cases "deferredBuildListItems ?d 0 ''jO''")
  from buildListItems_exact [OF i l, where n = 0 and flt = "''jO''"]
  have "map (\<lambda>li. promptItemFor (promptItemByListItem src') (Some li)) lis
            = [Inr (Some john_doe), Inr (Some john_doe)]
        \<and> map li_html lis = [''John Doe'', ''John Doe'']
        \<and> distinct (map li_ref lis)
        \<and> d' = ?d \<and> map li_html (listItems (the r)) = [''John Doe'', ''John Doe'']"
    by (cases r) (simp_all add: b db matches_iff [symmetric] matches_jO_john matches_jO_jane m)
  then show ?thesis
    using i l by (simp add: b db)
qed

subsection \<open>Occurrences of a string in another\<close>

lemma lastIndexOf_Some:
  "lastIndexOf s t = Some i \<Longrightarrow> i + length t \<le> length s \<and> take (length t) (drop i s) = t"
proof (induction s arbitrary: i)
  case Nil
  then show ?case by (simp split: if_splits)
next
  case (Cons c s)
  show ?case
  proof (cases "lastIndexOf s t")
    case None
    with Cons.prems have "startsWith (c # s) t" "i = 0" by (auto split: if_splits)
    then have tk: "take (length t) (c # s) = t" and i: "i = 0"
      by (simp_all add: startsWith_def)
    from tk have "length (take (length t) (c # s)) = length t" by simp
    then have "length t \<le> length (c # s)" by simp
    with tk i show ?thesis by simp
  next
    case (Some j)
    with Cons.prems have "i = Suc j" by simp
    with Cons.IH [OF Some] show ?thesis by simp
  qed
qed

lemma lastIndexOf_None_iff: "lastIndexOf s t = None \<longleftrightarrow> \<not> js_includes s t"
  by (induction s) (auto split: option.splits)

lemma lastIndexOf_single:
  "c \<notin> set flt \<Longrightarrow> lastIndexOf (pre @ c # flt) [c] = Some (length pre)"
proof (induction pre)
  case Nil
  have "lastIndexOf flt [c] = None" using Nil
    by (induction flt) (auto simp: startsWith_def)
  then show ?case by (simp add: startsWith_def)
next
  case (Cons a pre)
  then show ?case by simp
qed

lemma js_includes_single: "js_includes s [c] \<longleftrightarrow> c \<in> set s"
  by (induction s) (auto simp: startsWith_def)

lemma lastIndexOf_short: "length s < length t \<Longrightarrow> lastIndexOf s t = None"
proof (induction s)
  case Nil
  then show ?case by auto
next
  case (Cons c s)
  then have "lastIndexOf s t = None" by simp
  moreover have "\<not> startsWith (c # s) t"
  proof
    assume "startsWith (c # s) t"
    then have "length (take (length t) (c # s)) = length t" by (simp add: startsWith_def)
    with Cons.prems show False by simp
  qed
  ultimately show ?case by simp
qed

lemma lastIndexOf_suffix: "lastIndexOf (pre @ t) t = Some (length pre)"
proof (induction pre)
  case Nil
  show ?case
  proof (cases t)
    case Nil
    then show ?thesis by simp
  next
    case (Cons c s)
    have "lastIndexOf s (c # s) = None" by (rule lastIndexOf_short) simp
    then show ?thesis by (simp add: Cons startsWith_def)
  qed
next
  case (Cons a pre)
  then show ?case by simp
qed

lemma lastIndexOf_single_cases:
  "lastIndexOf s [c] = None \<and> c \<notin> set s
   \<or> (\<exists>k. lastIndexOf s [c] = Some k \<and> k < length s \<and> c \<in> set s)"
proof (cases "lastIndexOf s [c]")
  case None
  then show ?thesis by (simp add: lastIndexOf_None_iff js_includes_single)
next
  case (Some k)
  then have "k < length s" using lastIndexOf_Some [OF Some] by simp
  moreover have "c \<in> set s"
  proof (rule ccontr)
    assume "c \<notin> set s"
    then have "lastIndexOf s [c] = None" by (simp add: lastIndexOf_None_iff js_includes_single)
    with Some show False by simp
  qed
  ultimately show ?thesis using Some by simp
qed

subsection \<open>What the operations on the menu leave alone\<close>

lemmas menu_defs = selectFirstOption_def selectOption_def clearSelection_def
  renderFilteredListItems_def showResults_def showEmptyResults_def

lemma selectFirstOption_frame [simp]:
  "visible (prompt (selectFirstOption sys)) = visible (prompt sys)"
  "trigger (prompt (selectFirstOption sys)) = trigger (prompt sys)"
  "cursorPositionListener (prompt (selectFirstOption sys)) = cursorPositionListener (prompt sys)"
  "changeListener (prompt (selectFirstOption sys)) = changeListener (prompt sys)"
  "keyListeners (prompt (selectFirstOption sys)) = keyListeners (prompt sys)"
  "initialPrompt (prompt (selectFirstOption sys)) = initialPrompt (prompt sys)"
  "nodes (editor (selectFirstOption sys)) = nodes (editor sys)"
  "selection (editor (selectFirstOption sys)) = selection (editor sys)"
  "source (selectFirstOption sys) = source sys"
  "nextRef (selectFirstOption sys) = nextRef sys"
  by (simp_all add: menu_defs Let_def split: list.splits)

lemma renderFilteredListItems_frame [simp]:
  "visible (prompt (renderFilteredListItems lis sys)) = visible (prompt sys)"
  "trigger (prompt (renderFilteredListItems lis sys)) = trigger (prompt sys)"
  "cursorPositionListener (prompt (renderFilteredListItems lis sys)) = cursorPositionListener (prompt sys)"
  "changeListener (prompt (renderFilteredListItems lis sys)) = changeListener (prompt sys)"
  "keyListeners (prompt (renderFilteredListItems lis sys)) = keyListeners (prompt sys)"
  "initialPrompt (prompt (renderFilteredListItems lis sys)) = initialPrompt (prompt sys)"
  "nodes (editor (renderFilteredListItems lis sys)) = nodes (editor sys)"
  "selection (editor (renderFilteredListItems lis sys)) = selection (editor sys)"
  "source (renderFilteredListItems lis sys) = source sys"
  "nextRef (renderFilteredListItems lis sys) = nextRef sys"
  by (simp_all add: renderFilteredListItems_def Let_def showResults_def showEmptyResults_def)

lemma showFilteredOptions_frame [simp]:
  "visible (prompt (showFilteredOptions sys)) = visible (prompt sys)"
  "trigger (prompt (showFilteredOptions sys)) = trigger (prompt sys)"
  "cursorPositionListener (prompt (showFilteredOptions sys)) = cursorPositionListener (prompt sys)"
  "changeListener (prompt (showFilteredOptions sys)) = changeListener (prompt sys)"
  "keyListeners (prompt (showFilteredOptions sys)) = keyListeners (prompt sys)"
  "initialPrompt (prompt (showFilteredOptions sys)) = initialPrompt (prompt sys)"
  "nodes (editor (showFilteredOptions sys)) = nodes (editor sys)"
  "selection (editor (showFilteredOptions sys)) = selection (editor sys)"
  by (simp_all add: showFilteredOptions_def Let_def split: prod.splits)

lemma hidePopover_frame [simp]:
  "visible (prompt (hidePopover sys)) = False"
  "trigger (prompt (hidePopover sys)) = trigger (prompt sys)"
  "cursorPositionListener (prompt (hidePopover sys)) = False"
  "changeListener (prompt (hidePopover sys)) = False"
  "keyListeners (prompt (hidePopover sys)) = []"
  "initialPrompt (prompt (hidePopover sys)) = initialPrompt (prompt sys)"
  "editor (hidePopover sys) = editor sys"
  "source (hidePopover sys) = source sys"
  "nextRef (hidePopover sys) = nextRef sys"
  by (simp_all add: hidePopover_def clearSelection_def)

lemma filterOptions_frame [simp]:
  "trigger (prompt (filterOptions sys)) = trigger (prompt sys)"
  "nodes (editor (filterOptions sys)) = nodes (editor sys)"
  "selection (editor (filterOptions sys)) = selection (editor sys)"
  by (simp_all add: filterOptions_def)

lemma showPopover_frame [simp]:
  "visible (prompt (showPopover sys)) = True"
  "trigger (prompt (showPopover sys)) = trigger (prompt sys)"
  "cursorPositionListener (prompt (showPopover sys)) = True"
  "changeListener (prompt (showPopover sys)) = True"
  "nodes (editor (showPopover sys)) = nodes (editor sys)"
  "selection (editor (showPopover sys)) = selection (editor sys)"
  by (simp_all add: showPopover_def Let_def registerKeyListeners_def)

lemma selectedNodeWithOffset_cong:
  "nodes ed' = nodes ed \<Longrightarrow> selection ed' = selection ed \<Longrightarrow>
     selectedNodeWithOffset ed' = selectedNodeWithOffset ed"
  by (simp add: selectedNodeWithOffset_def split: option.splits prod.splits)

lemma selectedNodeWithOffset_text_iff:
  "selectedNodeWithOffset ed = (Some (TextNode fullText), off) \<longleftrightarrow>
     (\<exists>i. selection ed = Some (i, off) \<and> i < length (nodes ed) \<and> nodes ed ! i = TextNode fullText)"
  by (auto simp: selectedNodeWithOffset_def split: option.splits prod.splits if_splits)

subsection \<open>Opening a session\<close>

lemma triggerFires_text:
  "triggerFires trig (Some (TextNode fullText), offset) \<longleftrightarrow>
     (\<exists>pre c. trig = [c] \<and> offset \<le> length fullText \<and> take offset fullText = pre @ [c]
        \<and> (pre = [] \<or> last pre = CHR '' '' \<or> last pre = CHR 0x0A))"
  (is "?L \<longleftrightarrow> ?R")
proof
  assume L: ?L
  then have pos: "0 < offset" by (auto simp: triggerFires_def split: if_splits)
  from L pos have c: "charAt fullText (offset - 1) = Some trig"
    by (auto simp: triggerFires_def Let_def split: if_splits)
  then have bound: "offset \<le> length fullText" and trig: "trig = [fullText ! (offset - 1)]"
    using pos by (auto simp: charAt_def split: if_splits)
  have tk: "take offset fullText = take (offset - 1) fullText @ [fullText ! (offset - 1)]"
    using pos bound take_Suc_conv_app_nth [of "offset - 1" fullText] by simp
  have "take (offset - 1) fullText = [] \<or> last (take (offset - 1) fullText) = CHR '' ''
          \<or> last (take (offset - 1) fullText) = CHR 0x0A"
  proof (cases "offset = 1")
    case True
    then show ?thesis by simp
  next
    case False
    with pos have gt: "1 < offset" by simp
    with L pos c have "charAt fullText (offset - 2) = Some [CHR '' ''] \<or> charAt fullText (offset - 2) = Some [CHR 0x0A]"
      by (auto simp: triggerFires_def Let_def split: if_splits)
    then have "fullText ! (offset - 2) = CHR '' '' \<or> fullText ! (offset - 2) = CHR 0x0A"
      by (auto simp: charAt_def split: if_splits)
    moreover have "last (take (offset - 1) fullText) = fullText ! (offset - 2)"
    proof -
      have "take (offset - 1) fullText = take (offset - 2) fullText @ [fullText ! (offset - 2)]"
        using gt bound take_Suc_conv_app_nth [of "offset - 2" fullText]
        by (simp add: Suc_diff_Suc numeral_2_eq_2)
      then show ?thesis by simp
    qed
    ultimately show ?thesis by simp
  qed
  with trig bound tk show ?R by blast
next
  assume ?R
  then obtain pre c where trig: "trig = [c]" and bound: "offset \<le> length fullText"
    and tk: "take offset fullText = pre @ [c]"
    and pre: "pre = [] \<or> last pre = CHR '' '' \<or> last pre = CHR 0x0A" by blast
  from tk have "length (take offset fullText) = length (pre @ [c])" by simp
  with bound have len: "offset = Suc (length pre)" by simp
  have nth: "fullText ! i = (pre @ [c]) ! i" if "i < offset" for i
  proof -
    have "take offset fullText ! i = fullText ! i" using that by simp
    then show ?thesis by (simp add: tk)
  qed
  have c: "charAt fullText (offset - 1) = Some trig"
    using len bound nth [of "length pre"] by (simp add: charAt_def trig)
  show ?L
  proof (cases "pre = []")
    case True
    with len c show ?thesis by (simp add: triggerFires_def)
  next
    case False
    then have "last pre = pre ! (length pre - 1)" by (simp add: last_conv_nth)
    moreover have "fullText ! (offset - 2) = pre ! (length pre - 1)"
      using nth [of "length pre - 1"] len False by (simp add: nth_append)
    ultimately have "fullText ! (offset - 2) = CHR '' '' \<or> fullText ! (offset - 2) = CHR 0x0A"
      using pre False by simp
    then have "charAt fullText (offset - 2) = Some [CHR '' ''] \<or> charAt fullText (offset - 2) = Some [CHR 0x0A]"
      using len bound by (auto simp: charAt_def)
    with c len False show ?thesis by (auto simp: triggerFires_def Let_def)
  qed
qed

lemma triggerFires_node:
  assumes "triggerFires trig (node, offset)"
  shows "\<exists>fullText. node = Some (TextNode fullText)"
proof (cases node)
  case None
  with assms show ?thesis by (simp add: triggerFires_def)
next
  case (Some n)
  with assms show ?thesis by (cases n) (simp_all add: triggerFires_def)
qed

lemma is_open_onTriggerListener:
  "is_open (onTriggerListener sys) \<longleftrightarrow>
     is_open sys \<or> triggerFires (trigger (prompt sys)) (selectedNodeWithOffset (editor sys))"
  by (simp add: onTriggerListener_def is_open_def)

lemma onCursorPositionListener_closed:
  "\<not> is_open sys \<Longrightarrow> onCursorPositionListener sys = sys"
  by (simp add: onCursorPositionListener_def)

text \<open>Where the trigger listener has just fired, the cursor listener keeps the popover.\<close>

lemma triggerFires_keeps:
  assumes "triggerFires (trigger (prompt sys)) (selectedNodeWithOffset (editor sys))"
  shows "is_open (onCursorPositionListener sys) = is_open sys"
proof (cases "is_open sys")
  case False
  then show ?thesis by (simp add: onCursorPositionListener_closed)
next
  case True
  obtain node offset where sel: "selectedNodeWithOffset (editor sys) = (node, offset)"
    by (cases "selectedNodeWithOffset (editor sys)")
  from assms sel obtain fullText where node: "node = Some (TextNode fullText)"
    using triggerFires_node by fastforce
  from assms obtain pre c where trig: "trigger (prompt sys) = [c]"
    and bound: "offset \<le> length fullText" and tk: "take offset fullText = pre @ [c]"
    unfolding sel node triggerFires_text by blast
  have pos: "0 < offset" using tk by (cases offset) auto
  have "lastIndexOf (take offset fullText) [c] = Some (length pre)"
    using lastIndexOf_single [of c "[]" pre] by (simp add: tk)
  moreover have "length pre < offset"
  proof -
    have "length (take offset fullText) = Suc (length pre)" by (simp add: tk)
    then show ?thesis using bound by simp
  qed
  ultimately show ?thesis
    using True pos by (simp add: onCursorPositionListener_def sel node trig)
qed

lemma triggerFires_iff:
  "triggerFires trig (selectedNodeWithOffset ed) \<longleftrightarrow>
     (\<exists>i off fullText pre c.
         selection ed = Some (i, off) \<and> i < length (nodes ed) \<and> nodes ed ! i = TextNode fullText
       \<and> off \<le> length fullText \<and> take off fullText = pre @ [c] \<and> trig = [c]
       \<and> (pre = [] \<or> last pre = CHR '' '' \<or> last pre = CHR 0x0A))"
  (is "?fires \<longleftrightarrow> ?R")
proof (cases "selection ed")
  case None
  then show ?thesis by (simp add: selectedNodeWithOffset_def triggerFires_def)
next
  case (Some a)
  obtain i off where a: "a = (i, off)" by (cases a)
  show ?thesis
  proof (cases "i < length (nodes ed)")
    case False
    with Some a show ?thesis by (simp add: selectedNodeWithOffset_def triggerFires_def)
  next
    case True
    show ?thesis
    proof (cases "nodes ed ! i")
      case (TextNode fullText)
      with Some a True have "selectedNodeWithOffset ed = (Some (TextNode fullText), off)"
        by (simp add: selectedNodeWithOffset_def)
      then have "?fires \<longleftrightarrow> triggerFires trig (Some (TextNode fullText), off)"
        by simp
      also have "\<dots> \<longleftrightarrow> (\<exists>pre c. trig = [c] \<and> off \<le> length fullText
          \<and> take off fullText = pre @ [c]
          \<and> (pre = [] \<or> last pre = CHR '' '' \<or> last pre = CHR 0x0A))"
        by (rule triggerFires_text)
      also have "\<dots> \<longleftrightarrow> ?R"
        using Some a True TextNode by auto
      finally show ?thesis .
    qed (use Some a True in \<open>simp_all add: selectedNodeWithOffset_def triggerFires_def\<close>)
  qed
qed

lemma trigger_opens_iff:
  assumes "\<not> is_open sys"
  shows "is_open (updateListeners (sys\<lparr>editor := ed\<rparr>)) \<longleftrightarrow>
     triggerListener (prompt sys)
     \<and> triggerFires (trigger (prompt sys)) (selectedNodeWithOffset ed)"
proof -
  let ?sys = "sys\<lparr>editor := ed\<rparr>"
  let ?fires = "triggerFires (trigger (prompt sys)) (selectedNodeWithOffset ed)"
  have closed: "\<not> is_open ?sys" using assms by (simp add: is_open_def)
  show ?thesis
  proof (cases "triggerListener (prompt sys)")
    case False
    with closed show ?thesis
      by (simp add: updateListeners_def Let_def onCursorPositionListener_closed)
  next
    case listens: True
    show ?thesis
    proof (cases ?fires)
      case True
      let ?sys1 = "onTriggerListener ?sys"
      have o: "is_open ?sys1" using True by (simp add: is_open_onTriggerListener)
      have "selectedNodeWithOffset (editor ?sys1) = selectedNodeWithOffset ed"
        using True by (intro selectedNodeWithOffset_cong) (simp_all add: onTriggerListener_def)
      moreover have "trigger (prompt ?sys1) = trigger (prompt sys)"
        by (simp add: onTriggerListener_def)
      ultimately have "is_open (onCursorPositionListener ?sys1) = is_open ?sys1"
        using True triggerFires_keeps [of ?sys1] by simp
      with o True listens show ?thesis by (simp add: updateListeners_def Let_def)
    next
      case False
      then have "onTriggerListener ?sys = ?sys" by (simp add: onTriggerListener_def)
      with False closed listens show ?thesis
        by (simp add: updateListeners_def Let_def onCursorPositionListener_closed)
    qed
  qed
qed

lemma rearm_after_frame:
  "\<not> is_open (hidePopover sys)"
  "triggerListener (prompt (hidePopover sys)) = triggerListener (prompt sys)"
  "\<not> is_open (nextFrame (hidePopover sys))"
  "triggerListener (prompt (nextFrame (hidePopover sys)))"
  by (simp_all add: is_open_def hidePopover_def nextFrame_def clearSelection_def)

text \<open>
  Claim C4, as amended. While no session is open, a change of the editor state opens a
  session if and only if the trigger listener is registered, the cursor is in a text
  node, the character immediately before the cursor is the trigger character, and that
  character is the first of its text node or follows a space or a newline. So a trigger
  character that follows any other character, as in \<^verbatim>\<open>email@host\<close>, opens no session.
  The listener decides in the same way whatever the source of the prompt is; over a
  source that filters locally the session is open once the call of \<^verbatim>\<open>#showPopover\<close> has
  run. Closing a session leaves the listener as it was, unregistered, and the next frame
  registers it again.
\<close>

theorem trigger_opens_session:
  fixes sys :: "local_source prompt_system" and other :: "'s prompt_system"
  assumes "\<not> is_open sys"
  shows "(is_open (updateListeners (sys\<lparr>editor := ed\<rparr>)) \<longleftrightarrow>
           triggerListener (prompt sys)
           \<and> (\<exists>i off fullText pre c.
               selection ed = Some (i, off) \<and> i < length (nodes ed) \<and> nodes ed ! i = TextNode fullText
             \<and> off \<le> length fullText \<and> take off fullText = pre @ [c] \<and> trigger (prompt sys) = [c]
             \<and> (pre = [] \<or> last pre = CHR '' '' \<or> last pre = CHR 0x0A)))
       \<and> (\<forall>i off fullText.
             selection ed = Some (i, off) \<and> i < length (nodes ed) \<and> nodes ed ! i = TextNode fullText
             \<and> 2 \<le> off \<and> off \<le> length fullText
             \<and> fullText ! (off - 2) \<noteq> CHR '' '' \<and> fullText ! (off - 2) \<noteq> CHR 0x0A
             \<longrightarrow> \<not> is_open (updateListeners (sys\<lparr>editor := ed\<rparr>)))
       \<and> (triggerFires (trigger (prompt other)) (selectedNodeWithOffset ed) \<longleftrightarrow>
           (\<exists>i off fullText pre c.
               selection ed = Some (i, off) \<and> i < length (nodes ed) \<and> nodes ed ! i = TextNode fullText
             \<and> off \<le> length fullText \<and> take off fullText = pre @ [c] \<and> trigger (prompt other) = [c]
             \<and> (pre = [] \<or> last pre = CHR '' '' \<or> last pre = CHR 0x0A)))
       \<and> \<not> is_open (hidePopover other)
       \<and> triggerListener (prompt (hidePopover other)) = triggerListener (prompt other)
       \<and> \<not> is_open (nextFrame (hidePopover other))
       \<and> triggerListener (prompt (nextFrame (hidePopover other)))"
proof -
  have iff: "is_open (updateListeners (sys\<lparr>editor := ed\<rparr>)) \<longleftrightarrow>
           triggerListener (prompt sys)
           \<and> (\<exists>i off fullText pre c.
               selection ed = Some (i, off) \<and> i < length (nodes ed) \<and> nodes ed ! i = TextNode fullText
             \<and> off \<le> length fullText \<and> take off fullText = pre @ [c] \<and> trigger (prompt sys) = [c]
             \<and> (pre = [] \<or> last pre = CHR '' '' \<or> last pre = CHR 0x0A))"
    unfolding trigger_opens_iff [OF assms, of ed] triggerFires_iff ..
  have mid: "\<not> is_open (updateListeners (sys\<lparr>editor := ed\<rparr>))"
    if h: "selection ed = Some (i, off)" "i < length (nodes ed)" "nodes ed ! i = TextNode fullText"
      "2 \<le> off" "off \<le> length fullText"
      "fullText ! (off - 2) \<noteq> CHR '' ''" "fullText ! (off - 2) \<noteq> CHR 0x0A"
    for i off fullText
  proof
    assume "is_open (updateListeners (sys\<lparr>editor := ed\<rparr>))"
    then obtain pre c where tk: "take off fullText = pre @ [c]"
      and pre: "pre = [] \<or> last pre = CHR '' '' \<or> last pre = CHR 0x0A"
      unfolding iff using h(1,3) by auto
    have "length (take off fullText) = Suc (length pre)" by (simp add: tk)
    then have len: "off = Suc (length pre)" using h(5) by simp
    then have ne: "pre \<noteq> []" using h(4) by auto
    have "take off fullText ! (off - 2) = fullText ! (off - 2)" using h(4) by simp
    then have a: "(pre @ [c]) ! (off - 2) = fullText ! (off - 2)" by (simp only: tk)
    have b: "(pre @ [c]) ! (off - 2) = pre ! (length pre - 1)"
      using len ne by (simp add: nth_append)
    have "last pre = pre ! (length pre - 1)" using ne by (simp add: last_conv_nth)
    with a b have "last pre = fullText ! (off - 2)" by simp
    with pre ne h(6,7) show False by simp
  qed
  note gen = triggerFires_iff [of "trigger (prompt other)" ed]
  from iff mid gen rearm_after_frame [of other] show ?thesis by blast
qed

lemma people_system_closed: "\<not> is_open people_system" "triggerListener (prompt people_system)"
  by (simp_all add: is_open_def people_system_def mention_prompt_def)

theorem trigger_opens_session_witness:
  "\<not> is_open people_system \<and> triggerListener (prompt people_system)
   \<and> is_open (updateListeners (people_system\<lparr>editor := typed ''hello @'' 7\<rparr>))
   \<and> \<not> is_open (updateListeners (people_system\<lparr>editor := typed ''email@host'' 6\<rparr>))
   \<and> triggerListener (prompt (nextFrame (hidePopover opened_session)))"
proof -
  note t = trigger_opens_session [where sys = people_system and other = opened_session,
      OF people_system_closed(1)]
  have trig: "trigger (prompt people_system) = [CHR ''@'']"
    by (simp add: people_system_def mention_prompt_def)
  have "selection (typed ''hello @'' 7) = Some (0, 7) \<and> 0 < length (nodes (typed ''hello @'' 7))
       \<and> nodes (typed ''hello @'' 7) ! 0 = TextNode ''hello @'' \<and> 7 \<le> length ''hello @''
       \<and> take 7 ''hello @'' = ''hello '' @ [CHR ''@''] \<and> trigger (prompt people_system) = [CHR ''@'']
       \<and> (''hello '' = [] \<or> last ''hello '' = CHR '' '' \<or> last ''hello '' = CHR 0x0A)"
    by (simp add: typed_def trig)
  then have 1: "is_open (updateListeners (people_system\<lparr>editor := typed ''hello @'' 7\<rparr>))"
    unfolding t [of "typed ''hello @'' 7", THEN conjunct1]
    using people_system_closed(2) by blast
  have 2: "\<not> is_open (updateListeners (people_system\<lparr>editor := typed ''email@host'' 6\<rparr>))"
    using t [of "typed ''email@host'' 6", THEN conjunct2, THEN conjunct1, rule_format,
        of 0 6 "''email@host''"]
    by (simp add: typed_def)
  have 3: "triggerListener (prompt (nextFrame (hidePopover opened_session)))"
    using t [of "typed [] 0"] by blast
  from 1 2 3 people_system_closed show ?thesis by simp
qed

text \<open>
  Claim C4 as stated fails. The session of \<^verbatim>\<open>hi @\<close> is closed with Escape; before the next
  frame the text becomes \<^verbatim>\<open>hi @ @\<close>, with a trigger character after a space right before
  the cursor, and no session opens. After that frame the same change opens one.
\<close>

theorem trigger_before_rearm_counterexample:
  "\<not> is_open escaped_session
   \<and> charAt ''hi @ @'' 5 = Some (trigger (prompt escaped_session))
   \<and> charAt ''hi @ @'' 4 = Some '' ''
   \<and> \<not> is_open (updateListeners (escaped_session\<lparr>editor := typed ''hi @ @'' 6\<rparr>))
   \<and> \<not> is_open (documentChange (typed ''hi @ @'' 6) escaped_session)
   \<and> is_open (updateListeners ((nextFrame escaped_session)\<lparr>editor := typed ''hi @ @'' 6\<rparr>))"
  unfolding escaped_session_def opened_session_def by code_simp

subsection \<open>Rendering the filtered options\<close>

lemma listItemElements_map_Item [simp]: "listItemElements (map Item lis) = lis"
  by (induction lis) simp_all

lemma findIndex_none: "(\<forall>x \<in> set xs. \<not> P x) \<Longrightarrow> findIndex P xs = -1"
  by (induction xs) (simp_all add: Let_def)

lemma emptyResultsMessage_cases:
  "emptyResultsMessage p = (case emptyResults p of None \<Rightarrow> ''Nothing found''
       | Some m \<Rightarrow> if m = [] then ''Nothing found'' else m)"
  by (simp add: emptyResultsMessage_def NOTHING_FOUND_DEFAULT_MESSAGE_def split: option.splits)

lemma render_empty:
  "prompt (renderFilteredListItems [] sys) =
     (prompt sys)\<lparr>entries := [EmptyEntry (emptyResultsMessage (prompt sys))], emptyClass := True\<rparr>"
  by (simp add: renderFilteredListItems_def showEmptyResults_def selectFirstOption_def
      emptyResultsMessage_def)

lemma map_mark_unselect:
  "map (mark r) (map unselect (map Item lis)) =
     map (\<lambda>li. Item (li\<lparr>aria_selected := (li_ref li = r)\<rparr>)) lis"
  by (induction lis) auto

lemma render_nonempty:
  assumes "lis \<noteq> []"
  shows "entries (prompt (renderFilteredListItems lis sys)) =
           map (\<lambda>li. Item (li\<lparr>aria_selected := (li_ref li = li_ref (hd lis))\<rparr>)) lis"
proof -
  obtain l ls where lis: "lis = l # ls" using assms by (cases lis) auto
  show ?thesis
    unfolding lis
    by (simp add: renderFilteredListItems_def showResults_def selectFirstOption_def
        selectOption_def clearSelection_def Let_def map_mark_unselect [of _ "l # ls", simplified]
        map_mark_unselect)
qed

lemma showPopover_no_candidates:
  assumes "fetchedPromptItems (source sys) = []" and "\<not> initialPrompt (prompt sys)"
    and "containsTextBackUntil (editor sys) (trigger (prompt sys))"
  shows "entries (prompt (showPopover sys)) = [EmptyEntry (emptyResultsMessage (prompt sys))]"
proof -
  have b: "buildListItems (source sys) (nextRef sys) flt =
             ([], (source sys)\<lparr>promptItemByListItem := Some Map.empty\<rparr>, nextRef sys)" for flt
    using assms(1) by (simp add: buildListItems_def buildListItemsFromPromptItems_def)
  have "prompt (filterOptions sys) =
          (prompt sys)\<lparr>entries := [EmptyEntry (emptyResultsMessage (prompt sys))], emptyClass := True\<rparr>"
    using assms(2,3) by (simp add: filterOptions_def showFilteredOptions_def b render_empty)
  then show ?thesis
    by (simp add: showPopover_def Let_def selectFirstOption_def registerKeyListeners_def)
qed

text \<open>
  Claim C8. When the fetch of \<^verbatim>\<open>#showFilteredOptions\<close> yields no list item, the popover
  holds exactly one entry, which is not among the selectable list items (no item is
  selected, and a click on it does nothing) and whose content is the value of the
  \<^verbatim>\<open>empty-results\<close> attribute, or \<^verbatim>\<open>Nothing found\<close> when that attribute is absent or
  empty. When the fetch yields one or more list items, the popover holds those list
  items, in order, and no such entry. In particular, opening the popover over a source
  with no candidates displays that one entry.
\<close>

theorem empty_results_entry:
  "entries (prompt (renderFilteredListItems [] sys)) =
      [EmptyEntry (case emptyResults (prompt sys) of None \<Rightarrow> ''Nothing found''
                    | Some m \<Rightarrow> if m = [] then ''Nothing found'' else m)]
   \<and> listItemElements (entries (prompt (renderFilteredListItems [] sys))) = []
   \<and> selectedListItem (prompt (renderFilteredListItems [] sys)) = None
   \<and> handlePopoverClick (EmptyEntry m) sys' = Inr sys'
   \<and> (lis \<noteq> [] \<longrightarrow>
        (\<forall>e \<in> set (entries (prompt (renderFilteredListItems lis sys))). \<exists>li. e = Item li)
      \<and> map li_ref (listItemElements (entries (prompt (renderFilteredListItems lis sys)))) = map li_ref lis
      \<and> map li_html (listItemElements (entries (prompt (renderFilteredListItems lis sys)))) = map li_html lis)
   \<and> (fetchedPromptItems (source lsys) = [] \<and> \<not> initialPrompt (prompt lsys)
        \<and> containsTextBackUntil (editor lsys) (trigger (prompt lsys))
      \<longrightarrow> entries (prompt (showPopover lsys)) =
            [EmptyEntry (case emptyResults (prompt lsys) of None \<Rightarrow> ''Nothing found''
                          | Some m \<Rightarrow> if m = [] then ''Nothing found'' else m)])"
proof -
  have 1: "entries (prompt (renderFilteredListItems [] sys)) =
      [EmptyEntry (case emptyResults (prompt sys) of None \<Rightarrow> ''Nothing found''
                    | Some m \<Rightarrow> if m = [] then ''Nothing found'' else m)]"
    by (simp add: render_empty emptyResultsMessage_cases)
  have 2: "listItemElements (entries (prompt (renderFilteredListItems [] sys))) = []"
    by (simp add: render_empty)
  have 3: "selectedListItem (prompt (renderFilteredListItems [] sys)) = None"
    by (simp add: render_empty selectedListItem_def selectedIndex_def Let_def)
  have 4: "handlePopoverClick (EmptyEntry m) sys' = Inr sys'"
    by (simp add: handlePopoverClick_def)
  have 5: "(\<forall>e \<in> set (entries (prompt (renderFilteredListItems lis sys))). \<exists>li. e = Item li)
      \<and> map li_ref (listItemElements (entries (prompt (renderFilteredListItems lis sys)))) = map li_ref lis
      \<and> map li_html (listItemElements (entries (prompt (renderFilteredListItems lis sys)))) = map li_html lis"
    if "lis \<noteq> []"
  proof -
    let ?f = "\<lambda>li. li\<lparr>aria_selected := (li_ref li = li_ref (hd lis))\<rparr>"
    have e: "entries (prompt (renderFilteredListItems lis sys)) = map Item (map ?f lis)"
      using render_nonempty [OF that, of sys] by simp
    have l: "listItemElements (entries (prompt (renderFilteredListItems lis sys))) = map ?f lis"
      by (simp only: e listItemElements_map_Item)
    have "\<forall>e \<in> set (entries (prompt (renderFilteredListItems lis sys))). \<exists>li. e = Item li"
      unfolding e by auto
    then show ?thesis by (simp add: l comp_def)
  qed
  have 6: "entries (prompt (showPopover lsys)) =
            [EmptyEntry (case emptyResults (prompt lsys) of None \<Rightarrow> ''Nothing found''
                          | Some m \<Rightarrow> if m = [] then ''Nothing found'' else m)]"
    if "fetchedPromptItems (source lsys) = []" "\<not> initialPrompt (prompt lsys)"
      "containsTextBackUntil (editor lsys) (trigger (prompt lsys))"
    using showPopover_no_candidates [OF that] by (simp add: emptyResultsMessage_cases)
  from 1 2 3 4 5 6 show ?thesis by blast
qed

theorem empty_results_entry_witness:
  "entries (prompt (renderFilteredListItems [] people_system)) = [EmptyEntry ''Nothing found'']
   \<and> listItemElements (entries (prompt (renderFilteredListItems [] people_system))) = []
   \<and> selectedListItem (prompt (renderFilteredListItems [] people_system)) = None
   \<and> handlePopoverClick (EmptyEntry ''Nothing found'') people_system = Inr people_system
   \<and> map li_ref (listItemElements (entries (prompt
        (renderFilteredListItems [buildListItemElementFor 0 john_doe] people_system)))) = [0]
   \<and> map li_html (listItemElements (entries (prompt
        (renderFilteredListItems [buildListItemElementFor 0 john_doe] people_system)))) = [''John Doe'']
   \<and> fetchedPromptItems (source nobody_system) = [] \<and> \<not> initialPrompt (prompt nobody_system)
   \<and> containsTextBackUntil (editor nobody_system) (trigger (prompt nobody_system))
   \<and> entries (prompt (showPopover nobody_system)) = [EmptyEntry ''Nothing found'']"
proof -
  have n: "fetchedPromptItems (source nobody_system) = []" "\<not> initialPrompt (prompt nobody_system)"
    "containsTextBackUntil (editor nobody_system) (trigger (prompt nobody_system))"
    "emptyResults (prompt nobody_system) = None"
    by code_simp+
  show ?thesis
    using empty_results_entry [where sys = people_system and m = "''Nothing found''"
        and sys' = people_system and lis = "[buildListItemElementFor 0 john_doe]"
        and lsys = nobody_system]
    by (simp add: n people_system_def mention_prompt_def buildListItemElementFor_def john_doe_def)
qed

subsection \<open>Committing\<close>

lemma textBackUntil_at:
  assumes "selection ed = Some (i, off)" and "i < length (nodes ed)"
    and "nodes ed ! i = TextNode fullText"
    and "take off fullText = pre @ c # flt" and "c \<notin> set flt"
  shows "textBackUntil ed [c] = flt"
proof -
  have "textBeforeCursor ed = Some (pre @ c # flt)"
    using assms(1-4) by (simp add: textBeforeCursor_def selectedNodeWithOffset_def)
  then show ?thesis
    using lastIndexOf_single [OF assms(5), of pre] by (simp add: textBackUntil_def)
qed

lemma replaceTextBackUntil_at:
  assumes "selection ed = Some (i, off)" and "i < length (nodes ed)"
    and "nodes ed ! i = TextNode fullText"
    and "take off fullText = pre @ s"
  shows "replaceTextBackUntil ed s ns =
           ed\<lparr>nodes := take i (nodes ed) @ [TextNode pre] @ ns @ [TextNode (drop off fullText)]
                          @ drop (Suc i) (nodes ed),
              selection := Some (Suc (i + length ns), 0)\<rparr>"
proof -
  have "take (length pre) fullText = pre"
  proof -
    have "take (length pre) (take off fullText) = pre" by (simp add: assms(4))
    moreover have "length pre \<le> off"
    proof -
      have "length (take off fullText) = length pre + length s" by (simp add: assms(4))
      then show ?thesis by simp
    qed
    ultimately show ?thesis by (simp add: min_def)
  qed
  then show ?thesis
    using assms(1-3) lastIndexOf_suffix [of pre s]
    by (simp add: replaceTextBackUntil_def assms(4))
qed

text \<open>
  A commit in attachment mode, for a selected list item that the source resolves to the
  prompt item \<open>p\<close>, with the cursor after the trigger character and the filter text.
\<close>

lemma commit_attachment:
  assumes item: "promptItemFor (promptItemByListItem (source sys)) (selectedListItem (prompt sys))
                   = Inr (Some p)"
    and mode: "\<not> insertEditableText (prompt sys)"
    and cur: "selection (editor sys) = Some (i, off)" "i < length (nodes (editor sys))"
             "nodes (editor sys) ! i = TextNode fullText"
    and span: "take off fullText = pre @ c # flt" "c \<notin> set flt"
    and trig: "trigger (prompt sys) = [c]"
  shows "\<exists>sys'. optionWasSelected sys = Inr sys'
      \<and> nodes (editor sys') =
           take i (nodes (editor sys))
           @ [TextNode pre,
              AttachmentNode \<lparr>node_sgid = sgid p,
                              node_contentType = ''application/vnd.actiontext.''
                                 @ (case name (prompt sys) of None \<Rightarrow> ''null'' | Some n \<Rightarrow> n),
                              node_innerHtml = editor_template p\<rparr>,
              TextNode (drop off fullText)]
           @ drop (Suc i) (nodes (editor sys))
      \<and> \<not> is_open sys' \<and> focused (editor sys')"
proof -
  have flt: "textBackUntil (editor sys) [c] = flt"
    using cur span by (rule textBackUntil_at)
  have ct: "contentTypeFor nm \<noteq> []" for nm by (simp add: contentTypeFor_def)
  have rep: "replaceTextBackUntil (editor sys) (c # flt) ns =
           (editor sys)\<lparr>nodes := take i (nodes (editor sys)) @ [TextNode pre] @ ns
                          @ [TextNode (drop off fullText)] @ drop (Suc i) (nodes (editor sys)),
              selection := Some (Suc (i + length ns), 0)\<rparr>" for ns
    using cur span(1) by (rule replaceTextBackUntil_at)
  show ?thesis
    using item mode
    by (simp add: optionWasSelected_def replaceTriggerWithSelectedItem_def
        trig flt insertTemplateAsAttachment_def CustomActionTextAttachmentNode_def ct rep
        Let_def is_open_def contentTypeFor_def)
qed

text \<open>
  Claim C6. Committing a candidate whose \<^verbatim>\<open>sgid\<close> is \<^verbatim>\<open>R1\<close> in attachment mode (the
  attribute \<^verbatim>\<open>insert-editable-text\<close> is absent) replaces, in the text node of the cursor,
  exactly the trigger character and the filter text after it by exactly one attachment
  node, which carries \<^verbatim>\<open>R1\<close> as its \<^verbatim>\<open>sgid\<close> and the candidate's editor template as
  its content; the text before the trigger and the text after the cursor stay, and so do
  the other nodes.
\<close>

theorem commit_inserts_reference:
  assumes "promptItemFor (promptItemByListItem (source sys)) (selectedListItem (prompt sys))
             = Inr (Some p)"
    and "sgid p = Some r"
    and "\<not> insertEditableText (prompt sys)"
    and "selection (editor sys) = Some (i, off)" and "i < length (nodes (editor sys))"
    and "nodes (editor sys) ! i = TextNode fullText"
    and "take off fullText = pre @ c # flt" and "c \<notin> set flt"
    and "trigger (prompt sys) = [c]"
  shows "\<exists>sys'. optionWasSelected sys = Inr sys'
      \<and> nodes (editor sys') =
           take i (nodes (editor sys))
           @ [TextNode pre,
              AttachmentNode \<lparr>node_sgid = Some r,
                              node_contentType = ''application/vnd.actiontext.''
                                 @ (case name (prompt sys) of None \<Rightarrow> ''null'' | Some n \<Rightarrow> n),
                              node_innerHtml = editor_template p\<rparr>,
              TextNode (drop off fullText)]
           @ drop (Suc i) (nodes (editor sys))"
  using commit_attachment [OF assms(1) assms(3-9)] assms(2) by auto

lemma jane_session_facts:
  "promptItemFor (promptItemByListItem (source jane_session)) (selectedListItem (prompt jane_session))
     = Inr (Some jane_roe)"
  "\<not> insertEditableText (prompt jane_session)"
  "selection (editor jane_session) = Some (0, 7)"
  "nodes (editor jane_session) = [TextNode ''hi @jan and more'']"
  "trigger (prompt jane_session) = ''@''"
  "name (prompt jane_session) = Some ''mention''"
  unfolding jane_session_def opened_session_def by code_simp+

theorem commit_inserts_reference_witness:
  "promptItemFor (promptItemByListItem (source jane_session)) (selectedListItem (prompt jane_session))
     = Inr (Some jane_roe)
   \<and> sgid jane_roe = Some ''R2''
   \<and> \<not> insertEditableText (prompt jane_session)
   \<and> selection (editor jane_session) = Some (0, 7)
   \<and> nodes (editor jane_session) = [TextNode ''hi @jan and more'']
   \<and> trigger (prompt jane_session) = ''@''
   \<and> \<not> isl (optionWasSelected jane_session)
   \<and> nodes (editor (projr (optionWasSelected jane_session))) =
        [TextNode ''hi '',
         AttachmentNode \<lparr>node_sgid = Some ''R2'',
                         node_contentType = ''application/vnd.actiontext.mention'',
                         node_innerHtml = ''<em>Jane Roe</em>''\<rparr>,
         TextNode '' and more'']"
proof -
  have s: "sgid jane_roe = Some ''R2''" and e: "editor_template jane_roe = ''<em>Jane Roe</em>''"
    by (simp_all add: jane_roe_def)
  have "\<exists>sys'. optionWasSelected jane_session = Inr sys'
      \<and> nodes (editor sys') =
           take 0 (nodes (editor jane_session))
           @ [TextNode ''hi '',
              AttachmentNode \<lparr>node_sgid = Some ''R2'',
                              node_contentType = ''application/vnd.actiontext.''
                                 @ (case name (prompt jane_session) of None \<Rightarrow> ''null'' | Some n \<Rightarrow> n),
                              node_innerHtml = editor_template jane_roe\<rparr>,
              TextNode (drop 7 ''hi @jan and more'')]
           @ drop (Suc 0) (nodes (editor jane_session))"
    by (rule commit_inserts_reference [where p = jane_roe and c = "CHR ''@''" and flt = "''jan''"])
      (simp_all add: jane_session_facts s)
  then show ?thesis
    by (auto simp: jane_session_facts s e)
qed

text \<open>
  Claim C5, as amended. In attachment mode, committing a candidate that has no \<^verbatim>\<open>sgid\<close>
  is not a no-op: the trigger character and the filter text are replaced by one
  attachment node whose \<^verbatim>\<open>sgid\<close> is \<^verbatim>\<open>null\<close> and whose content is the candidate's editor
  template; the session closes.
\<close>

theorem commit_without_sgid_inserts:
  assumes "promptItemFor (promptItemByListItem (source sys)) (selectedListItem (prompt sys))
             = Inr (Some p)"
    and "sgid p = None"
    and "\<not> insertEditableText (prompt sys)"
    and "selection (editor sys) = Some (i, off)" and "i < length (nodes (editor sys))"
    and "nodes (editor sys) ! i = TextNode fullText"
    and "take off fullText = pre @ c # flt" and "c \<notin> set flt"
    and "trigger (prompt sys) = [c]"
  shows "\<exists>sys'. optionWasSelected sys = Inr sys'
      \<and> nodes (editor sys') =
           take i (nodes (editor sys))
           @ [TextNode pre,
              AttachmentNode \<lparr>node_sgid = None,
                              node_contentType = ''application/vnd.actiontext.''
                                 @ (case name (prompt sys) of None \<Rightarrow> ''null'' | Some n \<Rightarrow> n),
                              node_innerHtml = editor_template p\<rparr>,
              TextNode (drop off fullText)]
           @ drop (Suc i) (nodes (editor sys))
      \<and> \<not> is_open sys'"
  using commit_attachment [OF assms(1) assms(3-9)] assms(2) by auto

lemma joe_session_facts:
  "promptItemFor (promptItemByListItem (source joe_session)) (selectedListItem (prompt joe_session))
     = Inr (Some joe_unsigned)"
  "\<not> insertEditableText (prompt joe_session)"
  "selection (editor joe_session) = Some (0, 7)"
  "nodes (editor joe_session) = [TextNode ''hi @joe'']"
  "trigger (prompt joe_session) = ''@''"
  "name (prompt joe_session) = Some ''mention''"
  unfolding joe_session_def opened_session_def by code_simp+

theorem commit_without_sgid_inserts_witness:
  "promptItemFor (promptItemByListItem (source joe_session)) (selectedListItem (prompt joe_session))
     = Inr (Some joe_unsigned)
   \<and> sgid joe_unsigned = None
   \<and> \<not> insertEditableText (prompt joe_session)
   \<and> selection (editor joe_session) = Some (0, 7)
   \<and> nodes (editor joe_session) = [TextNode ''hi @joe'']
   \<and> trigger (prompt joe_session) = ''@''
   \<and> \<not> isl (optionWasSelected joe_session)
   \<and> nodes (editor (projr (optionWasSelected joe_session))) =
        [TextNode ''hi '',
         AttachmentNode \<lparr>node_sgid = None,
                         node_contentType = ''application/vnd.actiontext.mention'',
                         node_innerHtml = ''<em>Joe Bloggs</em>''\<rparr>,
         TextNode []]
   \<and> \<not> is_open (projr (optionWasSelected joe_session))"
proof -
  have s: "sgid joe_unsigned = None" and e: "editor_template joe_unsigned = ''<em>Joe Bloggs</em>''"
    by (simp_all add: joe_unsigned_def)
  have "\<exists>sys'. optionWasSelected joe_session = Inr sys'
      \<and> nodes (editor sys') =
           take 0 (nodes (editor joe_session))
           @ [TextNode ''hi '',
              AttachmentNode \<lparr>node_sgid = None,
                              node_contentType = ''application/vnd.actiontext.''
                                 @ (case name (prompt joe_session) of None \<Rightarrow> ''null'' | Some n \<Rightarrow> n),
                              node_innerHtml = editor_template joe_unsigned\<rparr>,
              TextNode (drop 7 ''hi @joe'')]
           @ drop (Suc 0) (nodes (editor joe_session))
      \<and> \<not> is_open sys'"
    by (rule commit_without_sgid_inserts [where p = joe_unsigned and c = "CHR ''@''" and flt = "''joe''"])
      (simp_all add: joe_session_facts s)
  then show ?thesis
    by (auto simp: joe_session_facts s e)
qed

text \<open>
  Claim C5 as stated fails: with the candidate \<^verbatim>\<open>Joe Bloggs\<close>, which has no \<^verbatim>\<open>sgid\<close>,
  selected after typing \<^verbatim>\<open>hi @joe\<close>, the commit changes the document.
\<close>

theorem commit_without_sgid_counterexample:
  "promptItemFor (promptItemByListItem (source joe_session)) (selectedListItem (prompt joe_session))
     = Inr (Some joe_unsigned)
   \<and> sgid joe_unsigned = None
   \<and> \<not> insertEditableText (prompt joe_session)
   \<and> nodes (editor joe_session) = [TextNode ''hi @joe'']
   \<and> \<not> isl (optionWasSelected joe_session)
   \<and> nodes (editor (projr (optionWasSelected joe_session))) =
        [TextNode ''hi '',
         AttachmentNode \<lparr>node_sgid = None,
                         node_contentType = ''application/vnd.actiontext.mention'',
                         node_innerHtml = ''<em>Joe Bloggs</em>''\<rparr>,
         TextNode []]
   \<and> nodes (editor (projr (optionWasSelected joe_session))) \<noteq> nodes (editor joe_session)"
  unfolding joe_session_def opened_session_def by code_simp

lemma Item_listItemElements: "Item li \<in> set es \<Longrightarrow> li \<in> set (listItemElements es)"
  by (induction es rule: listItemElements.induct) auto

text \<open>
  Claim C10, as amended. When Enter, Tab or Space (each where registered) fires while no
  list item is selected, as it is when only the empty-results entry is displayed, the
  source yields no prompt item and the commit inserts nothing: the nodes and the
  selection of the editor are unchanged, while the popover closes and the editor gets
  the focus. A click commits only when it lands on a list item, which it selects first;
  a click on the empty-results entry, and so every click on an entry of a popover that
  holds no list item, changes nothing at all: the popover stays as it is.
\<close>

theorem commit_without_selection:
  assumes "promptItemByListItem (source sys) \<noteq> None"
    and "selectedListItem (prompt sys) = None"
  shows "promptItemFor (promptItemByListItem (source sys)) (selectedListItem (prompt sys)) = Inr None
    \<and> (\<exists>sys'. optionWasSelected sys = Inr sys'
          \<and> nodes (editor sys') = nodes (editor sys) \<and> selection (editor sys') = selection (editor sys)
          \<and> \<not> is_open sys' \<and> focused (editor sys'))
    \<and> (cmd \<in> set (keyListeners (prompt sys))
         \<and> (cmd = KEY_ENTER_COMMAND \<or> cmd = KEY_TAB_COMMAND \<or> cmd = KEY_SPACE_COMMAND)
         \<longrightarrow> keyCommand cmd sys = optionWasSelected sys)
    \<and> handlePopoverClick (EmptyEntry m) sys = Inr sys
    \<and> handlePopoverClick (Item li) sys = optionWasSelected (selectOption li sys)
    \<and> (target \<in> set (entries (prompt sys)) \<and> listItemElements (entries (prompt sys)) = []
         \<longrightarrow> handlePopoverClick target sys = Inr sys)"
proof -
  have keys: "promptItemFor (promptItemByListItem (source sys)) (selectedListItem (prompt sys)) = Inr None
    \<and> (\<exists>sys'. optionWasSelected sys = Inr sys'
          \<and> nodes (editor sys') = nodes (editor sys) \<and> selection (editor sys') = selection (editor sys)
          \<and> \<not> is_open sys' \<and> focused (editor sys'))
    \<and> (cmd \<in> set (keyListeners (prompt sys))
         \<and> (cmd = KEY_ENTER_COMMAND \<or> cmd = KEY_TAB_COMMAND \<or> cmd = KEY_SPACE_COMMAND)
         \<longrightarrow> keyCommand cmd sys = optionWasSelected sys)"
    using assms
    by (auto simp add: keyCommand_def optionWasSelected_def replaceTriggerWithSelectedItem_def
        promptItemFor_def Let_def is_open_def)
  have click: "handlePopoverClick (EmptyEntry m) sys = Inr sys"
    "handlePopoverClick (Item li) sys = optionWasSelected (selectOption li sys)"
    by (simp_all add: handlePopoverClick_def)
  have none: "handlePopoverClick target sys = Inr sys"
    if "target \<in> set (entries (prompt sys))" "listItemElements (entries (prompt sys)) = []"
  proof (cases target)
    case (Item x)
    with that show ?thesis using Item_listItemElements [of x "entries (prompt sys)"] by simp
  next
    case (EmptyEntry x)
    then show ?thesis by (simp add: handlePopoverClick_def)
  qed
  from keys click none show ?thesis by blast
qed

lemma no_match_session_facts:
  "entries (prompt no_match_session) = [EmptyEntry ''Nothing found'']"
  "selectedListItem (prompt no_match_session) = None"
  "is_open no_match_session"
  "KEY_ENTER_COMMAND \<in> set (keyListeners (prompt no_match_session))"
  "nodes (editor no_match_session) = [TextNode ''hi @zzz'']"
  "(case promptItemByListItem (source no_match_session) of None \<Rightarrow> False | Some m \<Rightarrow> True)"
  unfolding no_match_session_def opened_session_def by code_simp+

theorem commit_without_selection_witness:
  "promptItemByListItem (source no_match_session) \<noteq> None
   \<and> entries (prompt no_match_session) = [EmptyEntry ''Nothing found'']
   \<and> selectedListItem (prompt no_match_session) = None
   \<and> is_open no_match_session
   \<and> KEY_ENTER_COMMAND \<in> set (keyListeners (prompt no_match_session))
   \<and> promptItemFor (promptItemByListItem (source no_match_session))
        (selectedListItem (prompt no_match_session)) = Inr None
   \<and> \<not> isl (keyCommand KEY_ENTER_COMMAND no_match_session)
   \<and> nodes (editor (projr (keyCommand KEY_ENTER_COMMAND no_match_session))) = [TextNode ''hi @zzz'']
   \<and> \<not> is_open (projr (keyCommand KEY_ENTER_COMMAND no_match_session))
   \<and> focused (editor (projr (keyCommand KEY_ENTER_COMMAND no_match_session)))
   \<and> EmptyEntry ''Nothing found'' \<in> set (entries (prompt no_match_session))
   \<and> listItemElements (entries (prompt no_match_session)) = []
   \<and> handlePopoverClick (EmptyEntry ''Nothing found'') no_match_session = Inr no_match_session"
proof -
  have t: "promptItemByListItem (source no_match_session) \<noteq> None"
    using no_match_session_facts(6) by (cases "promptItemByListItem (source no_match_session)") auto
  from commit_without_selection [OF t no_match_session_facts(2),
      where cmd = KEY_ENTER_COMMAND and m = "''Nothing found''"
        and li = "buildListItemElementFor 0 john_doe" and target = "EmptyEntry ''Nothing found''"]
  show ?thesis
    using t by (auto simp: no_match_session_facts)
qed

text \<open>
  Claim C10 as stated fails for a click. With only the empty-results entry displayed and
  no list item selected, a click on that entry inserts nothing, but the popover does not
  close: it stays open, with its key listeners registered.
\<close>

theorem click_on_empty_entry_counterexample:
  "entries (prompt no_match_session) = [EmptyEntry ''Nothing found'']
   \<and> selectedListItem (prompt no_match_session) = None
   \<and> is_open no_match_session
   \<and> \<not> isl (handlePopoverClick (EmptyEntry ''Nothing found'') no_match_session)
   \<and> nodes (editor (projr (handlePopoverClick (EmptyEntry ''Nothing found'') no_match_session)))
       = [TextNode ''hi @zzz'']
   \<and> is_open (projr (handlePopoverClick (EmptyEntry ''Nothing found'') no_match_session))
   \<and> KEY_ENTER_COMMAND \<in> set (keyListeners (prompt
         (projr (handlePopoverClick (EmptyEntry ''Nothing found'') no_match_session))))"
  by (simp add: handlePopoverClick_def no_match_session_facts)

subsection \<open>Following the cursor while a session is open\<close>

lemma cursor_after_trigger_iff:
  "cursor_after_trigger c ed \<longleftrightarrow>
     (\<exists>fullText off. selectedNodeWithOffset ed = (Some (TextNode fullText), off)
        \<and> c \<in> set (take off fullText))"
  by (auto simp: cursor_after_trigger_def split: prod.splits option.splits lexical_node.splits)

lemma cursor_listener_text:
  assumes "is_open sys" and "trigger (prompt sys) = [c]"
    and "selectedNodeWithOffset (editor sys) = (Some (TextNode fullText), off)"
  shows "onCursorPositionListener sys =
           (if c \<in> set (take off fullText) then sys else hidePopover sys)"
proof (cases "off = 0")
  case True
  with assms show ?thesis by (simp add: onCursorPositionListener_def)
next
  case False
  from lastIndexOf_single_cases [of "take off fullText" c] show ?thesis
  proof (elim disjE conjE exE)
    assume "lastIndexOf (take off fullText) [c] = None" "c \<notin> set (take off fullText)"
    with assms False show ?thesis by (simp add: onCursorPositionListener_def)
  next
    fix k assume k: "lastIndexOf (take off fullText) [c] = Some k"
      "k < length (take off fullText)" "c \<in> set (take off fullText)"
    then have "k < off" by simp
    with assms False k show ?thesis by (simp add: onCursorPositionListener_def)
  qed
qed

lemma cursor_listener_other:
  assumes "is_open sys" and "selectedNodeWithOffset (editor sys) = (Some n, off)"
    and "\<not> isTextNode n"
  shows "onCursorPositionListener sys = hidePopover sys"
  using assms by (simp add: onCursorPositionListener_def)

lemma cursor_listener_none:
  assumes "selectedNodeWithOffset (editor sys) = (None, off)"
  shows "onCursorPositionListener sys = sys"
  using assms by (simp add: onCursorPositionListener_def)

lemma containsTextBackUntil_single:
  "containsTextBackUntil ed [c] \<longleftrightarrow> cursor_after_trigger c ed"
proof (cases "selectedNodeWithOffset ed")
  case (Pair node off)
  show ?thesis
  proof (cases node)
    case None
    with Pair show ?thesis
      by (simp add: containsTextBackUntil_def textBeforeCursor_def cursor_after_trigger_def)
  next
    case (Some n)
    with Pair show ?thesis
      by (cases n) (simp_all add: containsTextBackUntil_def textBeforeCursor_def
          cursor_after_trigger_def js_includes_single)
  qed
qed

text \<open>
  What a change of the document does to an open session: the session goes on, with its
  options filtered anew, when the trigger character occurs before the cursor in the text
  node that holds the cursor, and is closed otherwise.
\<close>

lemma documentChange_open:
  assumes o: "is_open sys" and cl: "cursorPositionListener (prompt sys)"
    and ch: "changeListener (prompt sys)" and tl: "\<not> triggerListener (prompt sys)"
    and ip: "\<not> initialPrompt (prompt sys)" and trig: "trigger (prompt sys) = [c]"
  shows "documentChange ed sys =
     (if cursor_after_trigger c ed then showFilteredOptions (sys\<lparr>editor := ed\<rparr>)
      else hidePopover (sys\<lparr>editor := ed\<rparr>))"
proof -
  let ?sys = "sys\<lparr>editor := ed\<rparr>"
  have o': "is_open ?sys" and trig': "trigger (prompt ?sys) = [c]"
    using o trig by (simp_all add: is_open_def)
  have upd: "updateListeners ?sys = onCursorPositionListener ?sys"
    using cl tl by (simp add: updateListeners_def)
  have hid: "lexxyChange (hidePopover ?sys) = hidePopover ?sys"
    by (simp add: lexxyChange_def)
  have flt: "lexxyChange ?sys = (if cursor_after_trigger c ed then showFilteredOptions ?sys
      else hidePopover ?sys)"
    using ch ip trig
    by (simp add: lexxyChange_def filterOptions_def containsTextBackUntil_single)
  obtain node off where sel: "selectedNodeWithOffset ed = (node, off)"
    by (cases "selectedNodeWithOffset ed")
  show ?thesis
  proof (cases node)
    case None
    have "onCursorPositionListener ?sys = ?sys"
      by (rule cursor_listener_none [of _ off]) (simp add: sel None)
    then show ?thesis using ch by (simp add: documentChange_def upd flt)
  next
    case (Some n)
    show ?thesis
    proof (cases n)
      case (TextNode fullText)
      have s: "selectedNodeWithOffset (editor ?sys) = (Some (TextNode fullText), off)"
        by (simp add: sel Some TextNode)
      have cat: "cursor_after_trigger c ed \<longleftrightarrow> c \<in> set (take off fullText)"
        by (simp add: cursor_after_trigger_def sel Some TextNode)
      show ?thesis
        using ch cursor_listener_text [OF o' trig' s]
        by (simp add: documentChange_def upd flt hid cat)
    next
      case (AttachmentNode a)
      have "onCursorPositionListener ?sys = hidePopover ?sys"
        by (rule cursor_listener_other [OF o', of n off]) (simp_all add: sel Some AttachmentNode)
      moreover have "\<not> cursor_after_trigger c ed"
        by (simp add: cursor_after_trigger_def sel Some AttachmentNode)
      ultimately show ?thesis using ch by (simp add: documentChange_def upd hid)
    next
      case (GeneratedNodes g)
      have "onCursorPositionListener ?sys = hidePopover ?sys"
        by (rule cursor_listener_other [OF o', of n off]) (simp_all add: sel Some GeneratedNodes)
      moreover have "\<not> cursor_after_trigger c ed"
        by (simp add: cursor_after_trigger_def sel Some GeneratedNodes)
      ultimately show ?thesis using ch by (simp add: documentChange_def upd hid)
    next
      case OtherNode
      have "onCursorPositionListener ?sys = hidePopover ?sys"
        by (rule cursor_listener_other [OF o', of n off]) (simp_all add: sel Some OtherNode)
      moreover have "\<not> cursor_after_trigger c ed"
        by (simp add: cursor_after_trigger_def sel Some OtherNode)
      ultimately show ?thesis using ch by (simp add: documentChange_def upd hid)
    qed
  qed
qed

text \<open>
  Claim C7. While a session is open the prompt follows the cursor, and the cursor
  listener is meant to close the session when the trigger is not found or the cursor is
  at or before the trigger position. It looks the trigger up in the text before the
  cursor, so the index it finds is always below the offset and its second test never
  holds; the position of the session's trigger is not kept anywhere. Typing \<^verbatim>\<open>a@b @\<close>
  opens a session at the trigger character of index 4. With the cursor moved to offset
  3 or 4, before that trigger, the listener finds the \<^verbatim>\<open>@\<close> of index 1 and leaves the
  session open, and so does the whole change of the document. Likewise a session opened
  in the second of two text nodes stays open when the cursor moves into the first one,
  after the \<^verbatim>\<open>@\<close> of \<^verbatim>\<open>x@y\<close>. In the session of \<^verbatim>\<open>hi @\<close>, where no other trigger
  character comes before the cursor, the same move closes the session; and typing on
  after the trigger keeps it open, with the filter string going from \<^verbatim>\<open>jo\<close> to \<^verbatim>\<open>joh\<close>.
\<close>

theorem cursor_before_trigger_stays_open:
  "is_open email_session
   \<and> lastIndexOf (take 5 ''a@b @'') (trigger (prompt email_session)) = Some 4
   \<and> lastIndexOf (take 3 ''a@b @'') (trigger (prompt email_session)) = Some 1
   \<and> is_open (onCursorPositionListener (email_session\<lparr>editor := typed ''a@b @'' 3\<rparr>))
   \<and> is_open (onCursorPositionListener (email_session\<lparr>editor := typed ''a@b @'' 4\<rparr>))
   \<and> is_open (documentChange (typed ''a@b @'' 3) email_session)
   \<and> is_open (documentChange (typed ''a@b @'' 4) email_session)
   \<and> is_open (updateListeners (people_system\<lparr>editor := two_nodes 1 4\<rparr>))
   \<and> is_open (onCursorPositionListener
        ((updateListeners (people_system\<lparr>editor := two_nodes 1 4\<rparr>))\<lparr>editor := two_nodes 0 3\<rparr>))
   \<and> is_open (documentChange (two_nodes 0 3)
        (updateListeners (people_system\<lparr>editor := two_nodes 1 4\<rparr>)))
   \<and> is_open opened_session
   \<and> \<not> is_open (onCursorPositionListener (opened_session\<lparr>editor := typed ''hi @'' 3\<rparr>))
   \<and> \<not> is_open (documentChange (typed ''hi @'' 3) opened_session)
   \<and> is_open (documentChange (typed ''hi @jo'' 6) opened_session)
   \<and> textBackUntil (typed ''hi @jo'' 6) (trigger (prompt opened_session)) = ''jo''
   \<and> is_open (documentChange (typed ''hi @joh'' 7) (documentChange (typed ''hi @jo'' 6) opened_session))
   \<and> textBackUntil (typed ''hi @joh'' 7) (trigger (prompt opened_session)) = ''joh''"
  unfolding email_session_def opened_session_def by code_simp

subsection \<open>The deferred source\<close>

lemma fetchPromptItems_unloaded:
  "promptItems s = None \<Longrightarrow>
     requested (fst (fetchPromptItems s)) = requested s @ [url s] \<and> snd (fetchPromptItems s) = None"
  by (simp add: fetchPromptItems_def)

lemma fetchPromptItems_loaded:
  "promptItems s = Some items \<Longrightarrow> fetchPromptItems s = (s, Some items)"
  by (simp add: fetchPromptItems_def)

text \<open>
  Claim C2. A deferred source is meant to retrieve its candidates once. It does so when
  every later call of \<^verbatim>\<open>fetchPromptItems\<close> comes after the response to the
  constructor's request: such a call sends nothing and resolves to the stored items. But
  a call made while that request is still unanswered sends a second request to the same
  URL, as here for the source of \<^verbatim>\<open>/people\<close>.
\<close>

theorem deferred_fetch_in_flight_duplicates:
  "requested (DeferredPromptSource ''/people'') = [''/people'']
   \<and> promptItems (DeferredPromptSource ''/people'') = None
   \<and> awaiting (DeferredPromptSource ''/people'') = [0]
   \<and> requested (fst (fetchPromptItems (DeferredPromptSource ''/people''))) = [''/people'', ''/people'']
   \<and> awaiting (fst (fetchPromptItems (DeferredPromptSource ''/people''))) = [0, 1]
   \<and> requested (fst (fetchPromptItems (deferredResponse 0 [john_doe] (DeferredPromptSource ''/people''))))
       = [''/people'']
   \<and> snd (fetchPromptItems (deferredResponse 0 [john_doe] (DeferredPromptSource ''/people'')))
       = Some [john_doe]"
  by (simp add: DeferredPromptSource_def fetchPromptItems_def deferredResponse_def)

subsection \<open>The remote source: debouncing\<close>

lemma onCursorPositionListener_source [simp]:
  "source (onCursorPositionListener sys) = source sys"
  by (simp add: onCursorPositionListener_def Let_def split: prod.splits option.splits)

lemma spaced_timerFires: "spaced w \<Longrightarrow> spaced (timerFires w)"
  by (auto simp: spaced_def timerFires_def sorted_wrt_append list_all_iff
      split: option.splits prod.splits)

lemma spaced_clock: "spaced w \<Longrightarrow> spaced (w\<lparr>clock := max (clock w) t\<rparr>)"
  by (auto simp: spaced_def list_all_iff split: option.splits prod.splits)

lemma spaced_advance: "spaced w \<Longrightarrow> spaced (advance t w)"
  unfolding advance_def Let_def
  by (auto intro!: spaced_clock spaced_timerFires split: option.splits prod.splits)

lemma spaced_session:
  assumes "spaced w"
    and "timeout (source sys) = timeout (source (session w))"
  shows "spaced (w\<lparr>session := sys\<rparr>)"
  using assms by (simp add: spaced_def split: option.splits prod.splits)

lemma spaced_loadAndFilterListItems: "spaced w \<Longrightarrow> spaced (loadAndFilterListItems flt w)"
  by (auto simp: spaced_def loadAndFilterListItems_def list_all_iff)

lemma spaced_remoteFilterOptions: "spaced w \<Longrightarrow> spaced (remoteFilterOptions w)"
  by (auto simp: remoteFilterOptions_def remoteShowFilteredOptions_def Let_def
      intro: spaced_session spaced_loadAndFilterListItems)

lemma spaced_remoteDocumentChange: "spaced w \<Longrightarrow> spaced (remoteDocumentChange ed w)"
  by (auto simp: remoteDocumentChange_def Let_def
      intro!: spaced_session spaced_remoteFilterOptions)

lemma spaced_responseArrives: "spaced w \<Longrightarrow> spaced (responseArrives k items w)"
  by (simp add: responseArrives_def fetchFilteredListItems_def Let_def spaced_def
      split: option.splits prod.splits)

lemma spaced_requestFails: "spaced w \<Longrightarrow> spaced (requestFails k w)"
  by (simp add: requestFails_def spaced_def split: option.splits prod.splits)

lemma spaced_step: "spaced w \<Longrightarrow> spaced (remote_step w e)"
  by (cases "snd e")
    (simp_all add: remote_step_def Let_def spaced_advance spaced_remoteDocumentChange
      spaced_responseArrives spaced_requestFails)

lemma spaced_run: "spaced w \<Longrightarrow> spaced (remote_run es w)"
  unfolding remote_run_def by (induction es arbitrary: w) (simp_all add: spaced_step)

lemma remoteDocumentChange_keeps:
  assumes l: "listening c (session w)" and cat: "cursor_after_trigger c ed"
  shows "remoteDocumentChange ed w =
           loadAndFilterListItems (textBackUntil ed [c]) (w\<lparr>session := (session w)\<lparr>editor := ed\<rparr>\<rparr>)"
proof -
  let ?sys = "(session w)\<lparr>editor := ed\<rparr>"
  from cat obtain fullText off where
    sel: "selectedNodeWithOffset ed = (Some (TextNode fullText), off)"
    and mem: "c \<in> set (take off fullText)"
    unfolding cursor_after_trigger_iff by blast
  have o: "is_open ?sys" and trig: "trigger (prompt ?sys) = [c]"
    using l by (simp_all add: listening_def is_open_def)
  have s: "selectedNodeWithOffset (editor ?sys) = (Some (TextNode fullText), off)"
    by (simp add: sel)
  have keep: "onCursorPositionListener ?sys = ?sys"
    using cursor_listener_text [OF o trig s] mem by simp
  have "remoteFilterOptions (w\<lparr>session := ?sys\<rparr>) =
          loadAndFilterListItems (textBackUntil ed [c]) (w\<lparr>session := ?sys\<rparr>)"
    using l cat
    by (simp add: remoteFilterOptions_def remoteShowFilteredOptions_def listening_def
        containsTextBackUntil_single)
  then show ?thesis
    using l by (simp add: remoteDocumentChange_def Let_def keep listening_def)
qed

lemma step_change:
  assumes l: "listening c (session w)" and cat: "cursor_after_trigger c ed"
    and quiet: "timeout (source (session w)) = None
                \<or> (\<exists>due flt. timeout (source (session w)) = Some (due, flt) \<and> t < due)"
    and now: "clock w \<le> t"
  shows "remote_step w (t, DocumentChange ed) =
           w\<lparr>session := (session w)
                \<lparr>editor := ed,
                 source := (source (session w))
                   \<lparr>timeout := Some (t + DEBOUNCE_INTERVAL, textBackUntil ed [c])\<rparr>\<rparr>,
             clock := t\<rparr>"
proof -
  have adv: "advance t w = w\<lparr>clock := t\<rparr>"
    using quiet now by (auto simp: advance_def Let_def max_def)
  have l': "listening c (session (w\<lparr>clock := t\<rparr>))" using l by simp
  show ?thesis
    by (simp add: remote_step_def Let_def adv remoteDocumentChange_keeps [OF l' cat]
        loadAndFilterListItems_def)
qed

lemma run_burst:
  assumes "listening c (session w)"
    and "timeout (source (session w)) = Some (t + DEBOUNCE_INTERVAL, flt)"
    and "clock w = t"
    and "rapid t cs"
    and "list_all (\<lambda>change. cursor_after_trigger c (snd change)) cs"
  shows "fetched (remote_run (changes cs) w) = fetched w
    \<and> clock (remote_run (changes cs) w) = fst (last ((t, flt) # map (filter_of c) cs))
    \<and> timeout (source (session (remote_run (changes cs) w))) =
         Some (fst (last ((t, flt) # map (filter_of c) cs)) + DEBOUNCE_INTERVAL,
               snd (last ((t, flt) # map (filter_of c) cs)))
    \<and> baseURL (source (session (remote_run (changes cs) w))) = baseURL (source (session w))"
  using assms
proof (induction cs arbitrary: w t flt)
  case Nil
  then show ?case by (simp add: remote_run_def changes_def)
next
  case (Cons change cs)
  obtain t' ed where ch: "change = (t', ed)" by (cases change)
  let ?w = "remote_step w (t', DocumentChange ed)"
  from Cons.prems ch have r: "t \<le> t'" "t' < t + DEBOUNCE_INTERVAL" "rapid t' cs"
    and cat: "cursor_after_trigger c ed"
    and rest: "list_all (\<lambda>change. cursor_after_trigger c (snd change)) cs"
    by simp_all
  have quiet: "timeout (source (session w)) = None
                \<or> (\<exists>due flt. timeout (source (session w)) = Some (due, flt) \<and> t' < due)"
    using Cons.prems(2) r(2) by simp
  have now: "clock w \<le> t'" using Cons.prems(3) r(1) by simp
  have w': "?w = w\<lparr>session := (session w)
                \<lparr>editor := ed,
                 source := (source (session w))
                   \<lparr>timeout := Some (t' + DEBOUNCE_INTERVAL, textBackUntil ed [c])\<rparr>\<rparr>,
             clock := t'\<rparr>"
    using step_change [OF Cons.prems(1) cat quiet now] .
  have l: "listening c (session ?w)"
    using Cons.prems(1) by (simp add: w' listening_def is_open_def)
  have tm: "timeout (source (session ?w)) = Some (t' + DEBOUNCE_INTERVAL, textBackUntil ed [c])"
    and ck: "clock ?w = t'"
    by (simp_all add: w')
  have run: "remote_run (changes (change # cs)) w = remote_run (changes cs) ?w"
    by (simp add: remote_run_def changes_def ch)
  have same: "fetched ?w = fetched w" "baseURL (source (session ?w)) = baseURL (source (session w))"
    by (simp_all add: w')
  from Cons.IH [OF l tm ck r(3) rest] show ?case
    unfolding run same by (simp add: ch filter_of_def)
qed

text \<open>
  Claim C9. Calls of \<^verbatim>\<open>buildListItems\<close> on a remote source are debounced with a trailing
  window of 200 ms. When the document changes several times in an open session, each
  change less than 200 ms after the one before, no retrieval is sent while the changes
  go on, and exactly one is sent afterwards: 200 ms after the last change, with the
  filter string of the last change. And whatever happens to a source that starts with
  no request sent and no timer armed, any two of its retrievals lie at least 200 ms
  apart.
\<close>

theorem debounce_collapses_burst:
  assumes "listening c (session w)"
    and "fetched w = []" and "timeout (source (session w)) = None" and "clock w \<le> fst first"
    and "cursor_after_trigger c (snd first)"
    and "rapid (fst first) cs"
    and "list_all (\<lambda>change. cursor_after_trigger c (snd change)) cs"
  shows "fetched (advance T (remote_run (changes (first # cs)) w)) =
           (if T < fst (last (first # cs)) + DEBOUNCE_INTERVAL then []
            else [(fst (last (first # cs)) + DEBOUNCE_INTERVAL,
                   urlFor (baseURL (source (session w)))
                     (textBackUntil (snd (last (first # cs))) [c]))])
       \<and> (\<forall>es. sorted_wrt (\<lambda>a b. fst a + DEBOUNCE_INTERVAL \<le> fst b) (fetched (remote_run es w)))"
proof -
  obtain t0 e0 where f: "first = (t0, e0)" by (cases first)
  let ?w = "remote_step w (t0, DocumentChange e0)"
  have quiet: "timeout (source (session w)) = None
                \<or> (\<exists>due flt. timeout (source (session w)) = Some (due, flt) \<and> t0 < due)"
    using assms(3) by simp
  have w': "?w = w\<lparr>session := (session w)
                \<lparr>editor := e0,
                 source := (source (session w))
                   \<lparr>timeout := Some (t0 + DEBOUNCE_INTERVAL, textBackUntil e0 [c])\<rparr>\<rparr>,
             clock := t0\<rparr>"
    using step_change [OF assms(1) _ quiet, of e0] assms(4,5) by (simp add: f)
  have l: "listening c (session ?w)"
    using assms(1) by (simp add: w' listening_def is_open_def)
  have tm: "timeout (source (session ?w)) = Some (t0 + DEBOUNCE_INTERVAL, textBackUntil e0 [c])"
    and ck: "clock ?w = t0"
    by (simp_all add: w')
  have run: "remote_run (changes (first # cs)) w = remote_run (changes cs) ?w"
    by (simp add: remote_run_def changes_def f)
  let ?end = "remote_run (changes cs) ?w"
  let ?last = "last ((t0, textBackUntil e0 [c]) # map (filter_of c) cs)"
  from run_burst [OF l tm ck] assms(6,7) f
  have fin: "fetched ?end = []" "clock ?end = fst ?last"
    "timeout (source (session ?end)) = Some (fst ?last + DEBOUNCE_INTERVAL, snd ?last)"
    "baseURL (source (session ?end)) = baseURL (source (session w))"
    by (simp_all add: w' assms(2))
  have lst: "?last = filter_of c (last (first # cs))"
    by (simp add: f filter_of_def last_map)
  have 1: "fetched (advance T ?end) =
           (if T < fst (last (first # cs)) + DEBOUNCE_INTERVAL then []
            else [(fst (last (first # cs)) + DEBOUNCE_INTERVAL,
                   urlFor (baseURL (source (session w)))
                     (textBackUntil (snd (last (first # cs))) [c]))])"
    using fin unfolding lst
    by (simp add: advance_def timerFires_def Let_def filter_of_def max_def)
  have "spaced w" using assms(2,3) by (simp add: spaced_def)
  then have 2: "sorted_wrt (\<lambda>a b. fst a + DEBOUNCE_INTERVAL \<le> fst b) (fetched (remote_run es w))" for es
    using spaced_run [of w es] by (simp add: spaced_def)
  from 1 2 show ?thesis unfolding run by simp
qed

lemma burst_facts:
  "listening CHR ''@'' (session remote_session)"
  "fetched remote_session = []"
  "timeout (source (session remote_session)) = None"
  "clock remote_session \<le> fst (0 :: nat, typed ''hello @j'' 8)"
  "cursor_after_trigger CHR ''@'' (snd (0 :: nat, typed ''hello @j'' 8))"
  "rapid (fst (0 :: nat, typed ''hello @j'' 8)) [(120, typed ''hello @jo'' 9), (310, typed ''hello @joh'' 10)]"
  "list_all (\<lambda>change. cursor_after_trigger CHR ''@'' (snd change))
     [(120, typed ''hello @jo'' 9), (310, typed ''hello @joh'' 10)]"
  "baseURL (source (session remote_session)) = ''/people''"
  "textBackUntil (typed ''hello @joh'' 10) ''@'' = ''joh''"
  by code_simp+

theorem debounce_collapses_burst_witness:
  "listening CHR ''@'' (session remote_session)
   \<and> fetched remote_session = [] \<and> timeout (source (session remote_session)) = None
   \<and> rapid 0 (tl burst)
   \<and> fetched (advance 509 (remote_run (changes burst) remote_session)) = []
   \<and> fetched (advance 510 (remote_run (changes burst) remote_session))
        = [(510, URL ''/people'' [(''filter'', ''joh'')])]"
proof -
  note t = debounce_collapses_burst [OF burst_facts(1-7), THEN conjunct1]
  have b: "burst = (0, typed ''hello @j'' 8) # [(120, typed ''hello @jo'' 9), (310, typed ''hello @joh'' 10)]"
    by (simp add: burst_def)
  have 1: "fetched (advance 509 (remote_run (changes burst) remote_session)) = []"
    unfolding b t by (simp add: DEBOUNCE_INTERVAL_def)
  have 2: "fetched (advance 510 (remote_run (changes burst) remote_session))
        = [(510, URL ''/people'' [(''filter'', ''joh'')])]"
    unfolding b t by (simp add: DEBOUNCE_INTERVAL_def burst_facts(8,9) urlFor_def)
  have 3: "rapid 0 (tl burst)" using burst_facts(6) by (simp add: b)
  from 1 2 3 burst_facts(1-3) show ?thesis by simp
qed

subsection \<open>The remote source: responses\<close>

lemma remote_build_loop_html:
  "map li_html (listItems (remote_build_loop ps b)) = map li_html (listItems b) @ map menu_template ps"
  by (induction ps arbitrary: b) (simp_all add: Let_def buildListItemElementFor_def)

lemma remote_build_loop_empty:
  "listItems (remote_build_loop ps b) = [] \<longleftrightarrow> listItems b = [] \<and> ps = []"
  by (induction ps arbitrary: b) (simp_all add: Let_def)

lemma render_html:
  "map li_html (listItemElements (entries (prompt (renderFilteredListItems lis sys)))) = map li_html lis"
proof (cases "lis = []")
  case True
  then show ?thesis by (simp add: render_empty)
next
  case False
  let ?f = "\<lambda>li. li\<lparr>aria_selected := (li_ref li = li_ref (hd lis))\<rparr>"
  have "entries (prompt (renderFilteredListItems lis sys)) = map Item (map ?f lis)"
    using render_nonempty [OF False, of sys] by simp
  then have "listItemElements (entries (prompt (renderFilteredListItems lis sys))) = map ?f lis"
    by (simp only: listItemElements_map_Item)
  then show ?thesis by (simp add: comp_def)
qed

lemma advance_frame:
  "prompt (session (advance t w)) = prompt (session w)"
  "nextRef (session (advance t w)) = nextRef (session w)"
  "set (inflight w) \<subseteq> set (inflight (advance t w))"
  by (auto simp: advance_def timerFires_def Let_def split: option.splits prod.splits)

lemma fetched_advance: "length (fetched w) \<le> length (fetched (advance t w))"
  by (simp add: advance_def timerFires_def Let_def split: option.splits prod.splits)

lemma fetched_remoteDocumentChange: "fetched (remoteDocumentChange ed w) = fetched w"
  by (simp add: remoteDocumentChange_def remoteFilterOptions_def remoteShowFilteredOptions_def
      loadAndFilterListItems_def Let_def)

lemma fetched_responseArrives: "fetched (responseArrives k items w) = fetched w"
  by (simp add: responseArrives_def split: prod.splits)

lemma fetched_requestFails: "fetched (requestFails k w) = fetched w"
  by (simp add: requestFails_def)

lemma fetched_step: "length (fetched w) \<le> length (fetched (remote_step w e))"
  by (cases "snd e")
    (simp_all add: remote_step_def Let_def fetched_advance fetched_remoteDocumentChange
      fetched_responseArrives fetched_requestFails)

text \<open>Requests are only ever added: a request that is no longer the latest never is again.\<close>

lemma fetched_run: "length (fetched w) \<le> length (fetched (remote_run es w))"
proof (induction es arbitrary: w)
  case Nil
  then show ?case by (simp add: remote_run_def)
next
  case (Cons e es)
  have "length (fetched w) \<le> length (fetched (remote_step w e))" by (rule fetched_step)
  also have "\<dots> \<le> length (fetched (remote_run es (remote_step w e)))" by (rule Cons.IH)
  finally show ?case by (simp add: remote_run_def)
qed

lemma superseded_step:
  assumes "Suc k < length (fetched w)"
  shows "prompt (session (remote_step w (t, ResponseArrives k items))) = prompt (session w)"
proof -
  have "Suc k < length (fetched (advance t w))"
    using assms fetched_advance [of w t] by simp
  then have "\<not> latestIssued k (advance t w)" by (simp add: latestIssued_def)
  then have "prompt (session (responseArrives k items (advance t w))) = prompt (session (advance t w))"
    by (simp add: responseArrives_def fetchFilteredListItems_def Let_def)
  then show ?thesis by (simp add: remote_step_def Let_def advance_frame)
qed

lemma race_facts:
  "fetched (remote_run race remote_session)
     = [(200, URL ''/people'' [(''filter'', ''jo'')]), (450, URL ''/people'' [(''filter'', ''joh'')])]"
  "map li_html (listItemElements (entries (prompt (session
        (remote_run race_until_second_response remote_session))))) = [''John Doe'']"
  "inflight (remote_run race_until_second_response remote_session) = [0]"
  "map li_html (listItemElements (entries (prompt (session (remote_run race remote_session)))))
        = [''John Doe'']"
  "inflight (remote_run race remote_session) = []"
  "is_open (session (remote_run race remote_session))"
  by code_simp+

text \<open>
  Claim C1. Within one open session the popover displays only the results of the
  retrieval issued last. Once a later retrieval has been issued, the response to an
  earlier one changes nothing of the popover, whenever it arrives and whatever has
  happened in between; the response to the retrieval issued last is rendered, one entry
  for each of its prompt items and in order, or the empty-results entry when it has
  none. In the race of the claim, the retrieval for \<^verbatim>\<open>jo\<close> is sent at 200 ms and the one
  for \<^verbatim>\<open>joh\<close> at 450 ms; the response to the second arrives first and is displayed, and
  it still is after the response to the first has arrived.
\<close>

theorem superseded_response_never_rendered:
  "(Suc k < length (fetched w) \<longrightarrow>
      prompt (session (remote_step (remote_run es w) (t, ResponseArrives k items)))
        = prompt (session (remote_run es w)))
   \<and> (k \<in> set (inflight (advance t w)) \<and> Suc k = length (fetched (advance t w)) \<longrightarrow>
        map li_html (listItemElements (entries (prompt (session
            (remote_step w (t, ResponseArrives k items)))))) = map menu_template items
        \<and> (items = [] \<longrightarrow> entries (prompt (session (remote_step w (t, ResponseArrives k items))))
                              = [EmptyEntry (emptyResultsMessage (prompt (session w)))]))
   \<and> fetched (remote_run race remote_session)
        = [(200, URL ''/people'' [(''filter'', ''jo'')]), (450, URL ''/people'' [(''filter'', ''joh'')])]
   \<and> map li_html (listItemElements (entries (prompt (session
        (remote_run race_until_second_response remote_session))))) = [''John Doe'']
   \<and> inflight (remote_run race_until_second_response remote_session) = [0]
   \<and> map li_html (listItemElements (entries (prompt (session (remote_run race remote_session)))))
        = [''John Doe'']
   \<and> is_open (session (remote_run race remote_session))"
proof -
  have 1: "prompt (session (remote_step (remote_run es w) (t, ResponseArrives k items)))
        = prompt (session (remote_run es w))" if "Suc k < length (fetched w)"
  proof -
    have "Suc k < length (fetched (remote_run es w))"
      using that fetched_run [of w es] by simp
    then show ?thesis by (rule superseded_step)
  qed
  let ?w = "advance t w"
  have step: "remote_step w (t, ResponseArrives k items) = responseArrives k items ?w"
    by (simp add: remote_step_def Let_def)
  let ?b = "remoteBuildListItemsFromPromptItems (nextRef (session ?w)) items"
  have h: "map li_html (listItems ?b) = map menu_template items"
    by (simp add: remoteBuildListItemsFromPromptItems_def remote_build_loop_html)
  have 2: "map li_html (listItemElements (entries (prompt (session (responseArrives k items ?w)))))
           = map menu_template items"
    if "k \<in> set (inflight ?w)" "Suc k = length (fetched ?w)"
    using that
    by (simp add: responseArrives_def fetchFilteredListItems_def latestIssued_def Let_def
        render_html h)
  have 3: "entries (prompt (session (responseArrives k items ?w)))
            = [EmptyEntry (emptyResultsMessage (prompt (session w)))]"
    if "k \<in> set (inflight ?w)" "Suc k = length (fetched ?w)" "items = []"
    using that
    by (simp add: responseArrives_def fetchFilteredListItems_def latestIssued_def Let_def
        remoteBuildListItemsFromPromptItems_def render_empty advance_frame)
  from 1 2 3 show ?thesis unfolding step by (simp add: race_facts)
qed

lemma both_in_flight_facts:
  "inflight both_in_flight = [0, 1]"
  "fetched both_in_flight
     = [(200, URL ''/people'' [(''filter'', ''jo'')]), (450, URL ''/people'' [(''filter'', ''joh'')])]"
  "inflight (advance 500 both_in_flight) = [0, 1]"
  "length (fetched (advance 500 both_in_flight)) = 2"
  by code_simp+

theorem superseded_response_never_rendered_witness:
  "Suc 0 < length (fetched both_in_flight)
   \<and> prompt (session (remote_step (remote_run [(500, ResponseArrives 1 [john_doe])] both_in_flight)
          (600, ResponseArrives 0 [john_doe, joe_unsigned])))
        = prompt (session (remote_run [(500, ResponseArrives 1 [john_doe])] both_in_flight))
   \<and> 1 \<in> set (inflight (advance 500 both_in_flight))
   \<and> Suc 1 = length (fetched (advance 500 both_in_flight))
   \<and> map li_html (listItemElements (entries (prompt (session
        (remote_step both_in_flight (500, ResponseArrives 1 [john_doe])))))) = [''John Doe'']"
proof -
  have a: "Suc 0 < length (fetched both_in_flight)" by (simp add: both_in_flight_facts)
  have b: "1 \<in> set (inflight (advance 500 both_in_flight))"
    "Suc 1 = length (fetched (advance 500 both_in_flight))"
    by (simp_all add: both_in_flight_facts)
  from superseded_response_never_rendered
         [of 0 both_in_flight "[(500, ResponseArrives 1 [john_doe])]" 600 "[john_doe, joe_unsigned]"]
       superseded_response_never_rendered [of 1 both_in_flight "[]" 500 "[john_doe]"]
       a b
  show ?thesis by (simp add: john_doe_def)
qed

end
